theory Spec2Isabelle
  imports Complex_Main "HOL-Library.Word"
begin

unbundle bit_operations_syntax

section \<open>Particle engine (statistical-mechanics/particles.py)\<close>

text \<open>
  The engine is modelled twice. In the first model Python floats are idealised as real
  numbers: \<open>math.hypot\<close> is the exact Euclidean norm and the literal \<open>1e-6\<close> is the
  rational \<open>1 / 1000000\<close>. The second model, of the pairwise resolution only, rounds
  the result of every arithmetic operation to the nearest double, as the interpreter
  does; its definitions carry the suffix \<open>_double\<close>, and the property of the head-on
  pair, which is about an equality of floats, is stated of it. The module constants are
  integers in the source; they are kept as naturals and injected into the reals where
  the physics mixes them with coordinates.
\<close>

definition BOX_SIZE :: nat where
  "BOX_SIZE = 200"

definition PARTICLE_RADIUS :: nat where
  "PARTICLE_RADIUS = 5"

definition TIME_STEP :: nat where
  "TIME_STEP = 1"

text \<open>
  Class \<open>Particle\<close>: the attributes \<open>x\<close>, \<open>y\<close>, \<open>vx\<close>, \<open>vy\<close> are the fields
  \<open>pos_x\<close>, \<open>pos_y\<close>, \<open>vel_x\<close>, \<open>vel_y\<close>.
\<close>

record Particle =
  pos_x :: real
  pos_y :: real
  vel_x :: real
  vel_y :: real

definition update_position :: "Particle \<Rightarrow> Particle" where
  "update_position p =
     (let p = p\<lparr>pos_x := pos_x p + vel_x p * real TIME_STEP\<rparr>
      in p\<lparr>pos_y := pos_y p + vel_y p * real TIME_STEP\<rparr>)"

definition handle_wall_collisions :: "Particle \<Rightarrow> Particle" where
  "handle_wall_collisions p =
     (let p = (if pos_x p - real PARTICLE_RADIUS < 0 \<or> pos_x p + real PARTICLE_RADIUS > real BOX_SIZE
               then (let p = p\<lparr>vel_x := vel_x p * (- 1)\<rparr>
                     in p\<lparr>pos_x := max (real PARTICLE_RADIUS)
                                       (min (pos_x p) (real BOX_SIZE - real PARTICLE_RADIUS))\<rparr>)
               else p)
      in (if pos_y p - real PARTICLE_RADIUS < 0 \<or> pos_y p + real PARTICLE_RADIUS > real BOX_SIZE
          then (let p = p\<lparr>vel_y := vel_y p * (- 1)\<rparr>
                in p\<lparr>pos_y := max (real PARTICLE_RADIUS)
                                  (min (pos_y p) (real BOX_SIZE - real PARTICLE_RADIUS))\<rparr>)
          else p))"

definition hypot :: "real \<Rightarrow> real \<Rightarrow> real" where
  "hypot dx dy = sqrt (dx\<^sup>2 + dy\<^sup>2)"

text \<open>
  The random generator is a sequence of the values that successive calls of
  \<open>random.uniform(0, 2 * math.pi)\<close> return, read at a counter that each call advances.
\<close>

type_synonym rng = "nat \<Rightarrow> real"

text \<open>
  Lines 74 to 86 of \<open>handle_particle_collisions\<close>: the separation of the pair, and the
  collision vector \<open>(nx, ny)\<close> with the distance used from there on and the advanced
  counter of the generator.
\<close>

definition separation :: "Particle \<Rightarrow> Particle \<Rightarrow> real \<times> real \<times> real" where
  "separation p1 p2 =
     (let dx = pos_x p1 - pos_x p2;
          dy = pos_y p1 - pos_y p2
      in (dx, dy, hypot dx dy))"

definition collision_normal :: "rng \<Rightarrow> nat \<Rightarrow> real \<times> real \<times> real \<Rightarrow> real \<times> real \<times> real \<times> nat" where
  "collision_normal g k s =
     (case s of (dx, dy, distance) \<Rightarrow>
        (case (if distance = 0
               then (let angle = g k in (cos angle, sin angle, 1 / 1000000, Suc k))
               else (dx, dy, distance, k)) of
           (dx, dy, distance, k) \<Rightarrow> (dx / distance, dy / distance, distance, k)))"

text \<open>Lines 89 to 92: the relative velocity projected on the collision vector.\<close>

definition normal_velocity :: "Particle \<Rightarrow> Particle \<Rightarrow> real \<Rightarrow> real \<Rightarrow> real" where
  "normal_velocity p1 p2 nx ny =
     (let dvx = vel_x p1 - vel_x p2;
          dvy = vel_y p1 - vel_y p2
      in dvx * nx + dvy * ny)"

text \<open>The body of the inner loop, for the pair \<open>(p1, p2)\<close>.\<close>

definition collide :: "rng \<Rightarrow> nat \<Rightarrow> Particle \<Rightarrow> Particle \<Rightarrow> Particle \<times> Particle \<times> nat" where
  "collide g k p1 p2 =
     (case separation p1 p2 of (dx, dy, distance) \<Rightarrow>
        if distance < 2 * real PARTICLE_RADIUS then
          (case collision_normal g k (dx, dy, distance) of (nx, ny, distance, k) \<Rightarrow>
             (let dot = normal_velocity p1 p2 nx ny in
              if dot > 0 then (p1, p2, k)
              else
                (let p1 = p1\<lparr>vel_x := vel_x p1 - dot * nx\<rparr>;
                     p1 = p1\<lparr>vel_y := vel_y p1 - dot * ny\<rparr>;
                     p2 = p2\<lparr>vel_x := vel_x p2 + dot * nx\<rparr>;
                     p2 = p2\<lparr>vel_y := vel_y p2 + dot * ny\<rparr>;
                     overlap = 2 * real PARTICLE_RADIUS - distance;
                     p1 = p1\<lparr>pos_x := pos_x p1 + nx * (overlap / 2)\<rparr>;
                     p1 = p1\<lparr>pos_y := pos_y p1 + ny * (overlap / 2)\<rparr>;
                     p2 = p2\<lparr>pos_x := pos_x p2 - nx * (overlap / 2)\<rparr>;
                     p2 = p2\<lparr>pos_y := pos_y p2 - ny * (overlap / 2)\<rparr>
                 in (p1, p2, k))))
        else (p1, p2, k))"

text \<open>
  The two loops over the indices \<open>i < j\<close>. The list holds distinct objects that the body
  mutates in place: the state is the list, updated at \<open>i\<close> and \<open>j\<close>, and the counter of
  the generator.
\<close>

definition collide_at :: "rng \<Rightarrow> nat \<Rightarrow> nat \<Rightarrow> Particle list \<times> nat \<Rightarrow> Particle list \<times> nat" where
  "collide_at g i j s =
     (case s of (particles, k) \<Rightarrow>
        (case collide g k (particles ! i) (particles ! j) of
           (p1, p2, k) \<Rightarrow> ((particles[i := p1])[j := p2], k)))"

definition handle_particle_collisions :: "rng \<Rightarrow> Particle list \<times> nat \<Rightarrow> Particle list \<times> nat" where
  "handle_particle_collisions g s =
     fold (\<lambda>i s. fold (\<lambda>j s. collide_at g i j s) [i + 1 ..< length (fst s)] s)
          [0 ..< length (fst s)] s"

text \<open>The state changes of one iteration of the loop of \<open>main\<close> (lines 179 to 183).\<close>

definition simulation_step :: "rng \<Rightarrow> Particle list \<times> nat \<Rightarrow> Particle list \<times> nat" where
  "simulation_step g s =
     handle_particle_collisions g
       (map (\<lambda>particle. handle_wall_collisions (update_position particle)) (fst s), snd s)"

subsection \<open>The pairwise resolution in double precision\<close>










subsection \<open>Vocabulary of the properties\<close>

definition in_box :: "Particle \<Rightarrow> bool" where
  "in_box p \<longleftrightarrow>
     real PARTICLE_RADIUS \<le> pos_x p \<and> pos_x p \<le> real BOX_SIZE - real PARTICLE_RADIUS \<and>
     real PARTICLE_RADIUS \<le> pos_y p \<and> pos_y p \<le> real BOX_SIZE - real PARTICLE_RADIUS"


definition momentum :: "Particle \<Rightarrow> Particle \<Rightarrow> real \<times> real" where
  "momentum p1 p2 = (vel_x p1 + vel_x p2, vel_y p1 + vel_y p2)"

definition squared_speeds :: "Particle \<Rightarrow> Particle \<Rightarrow> real" where
  "squared_speeds p1 p2 = (vel_x p1)\<^sup>2 + (vel_y p1)\<^sup>2 + (vel_x p2)\<^sup>2 + (vel_y p2)\<^sup>2"

definition distance_between :: "Particle \<Rightarrow> Particle \<Rightarrow> real" where
  "distance_between p1 p2 = hypot (pos_x p1 - pos_x p2) (pos_y p1 - pos_y p2)"

definition mk_particle :: "real \<Rightarrow> real \<Rightarrow> real \<Rightarrow> real \<Rightarrow> Particle" where
  "mk_particle a b c d = \<lparr>pos_x = a, pos_y = b, vel_x = c, vel_y = d\<rparr>"

definition zero_draws :: rng where
  "zero_draws = (\<lambda>k. 0)"

section \<open>Bytes, \<open>struct\<close> and files\<close>

type_synonym byte = "8 word"
type_synonym bytes = "byte list"

text \<open>
  The exceptions the two scripts can raise: \<open>ValueError\<close> (raised by the code itself, and
  by unpacking a slice of the wrong length into \<open>b, g, r\<close>), \<open>struct.error\<close> (a value out
  of range for its format, or a buffer of the wrong size), \<open>ZeroDivisionError\<close>, and
  \<open>OverflowError\<close> (a size that does not fit the index type of the interpreter).
\<close>

datatype error = ValueError | StructError | ZeroDivisionError | OverflowError

definition seq :: "error + 'a \<Rightarrow> ('a \<Rightarrow> error + 'b) \<Rightarrow> error + 'b" where
  "seq m f = (case m of Inl e \<Rightarrow> Inl e | Inr v \<Rightarrow> f v)"

definition ascii :: "string \<Rightarrow> bytes" where
  "ascii s = map (\<lambda>c. word_of_nat (of_char c)) s"

text \<open>Python's \<open>xs[a:b]\<close> for indices \<open>a\<close>, \<open>b\<close> that are not negative.\<close>

definition slice :: "'a list \<Rightarrow> nat \<Rightarrow> nat \<Rightarrow> 'a list" where
  "slice xs a b = drop a (take b xs)"

fun le_bytes :: "nat \<Rightarrow> nat \<Rightarrow> bytes" where
  "le_bytes 0 v = []"
| "le_bytes (Suc k) v = word_of_nat v # le_bytes k (v div 256)"

fun le_value :: "bytes \<Rightarrow> nat" where
  "le_value [] = 0"
| "le_value (b # bs) = unat b + 256 * le_value bs"

text \<open>
  The arguments of \<open>struct.pack\<close> with a little-endian format (\<open><\<close>: no alignment):
  \<open>I\<close> and \<open>H\<close> are unsigned of 4 and 2 bytes and refuse a value out of range, \<open>ks\<close>
  takes \<open>k\<close> bytes, cut or filled with zero bytes.
\<close>

datatype field = I int | H int | S nat bytes

fun pack_field :: "field \<Rightarrow> error + bytes" where
  "pack_field (I v) = (if 0 \<le> v \<and> v < 2 ^ 32 then Inr (le_bytes 4 (nat v)) else Inl StructError)"
| "pack_field (H v) = (if 0 \<le> v \<and> v < 2 ^ 16 then Inr (le_bytes 2 (nat v)) else Inl StructError)"
| "pack_field (S k b) = Inr (take k b @ replicate (k - length b) 0)"

fun struct_pack :: "field list \<Rightarrow> error + bytes" where
  "struct_pack [] = Inr []"
| "struct_pack (f # fs) =
     seq (pack_field f) (\<lambda>b. seq (struct_pack fs) (\<lambda>bs. Inr (b @ bs)))"

text \<open>\<open>struct.unpack('<I', b)[0]\<close> and \<open>struct.unpack('<H', b)[0]\<close>.\<close>

definition unpack_I :: "bytes \<Rightarrow> error + nat" where
  "unpack_I b = (if length b = 4 then Inr (le_value b) else Inl StructError)"

definition unpack_H :: "bytes \<Rightarrow> error + nat" where
  "unpack_H b = (if length b = 2 then Inr (le_value b) else Inl StructError)"

text \<open>
  A file open for reading is its content and a position; \<open>f.read(n)\<close> returns the at most
  \<open>n\<close> bytes that are left there and advances by what it returned. A size above
  \<open>sys.maxsize\<close> (\<open>2 ^ 63 - 1\<close> on a 64-bit interpreter) is refused with
  \<open>OverflowError\<close>. Below that bound the interpreter allocates a buffer of \<open>n\<close> bytes
  first and raises \<open>MemoryError\<close> when it cannot: the memory of the machine is not
  modelled, and the properties of the reader are stated for sizes that do not exceed the
  length of the file, or that exceed \<open>sys.maxsize\<close>.
\<close>

definition sys_maxsize :: nat where
  "sys_maxsize = 2 ^ 63 - 1"

definition fread :: "bytes \<Rightarrow> nat \<Rightarrow> nat \<Rightarrow> error + bytes \<times> nat" where
  "fread f pos n =
     (if n > sys_maxsize then Inl OverflowError
      else (let b = take n (drop pos f) in Inr (b, pos + length b)))"

definition read_I :: "bytes \<Rightarrow> nat \<Rightarrow> error + nat \<times> nat" where
  "read_I f pos = seq (fread f pos 4) (\<lambda>(b, pos). seq (unpack_I b) (\<lambda>v. Inr (v, pos)))"

definition read_H :: "bytes \<Rightarrow> nat \<Rightarrow> error + nat \<times> nat" where
  "read_H f pos = seq (fread f pos 2) (\<lambda>(b, pos). seq (unpack_H b) (\<lambda>v. Inr (v, pos)))"

text \<open>
  A file open for writing is its content and a position; \<open>write\<close> overwrites from the
  position on and extends the file, \<open>seek\<close> sets the position, \<open>tell\<close> reads it.
\<close>

definition fwrite :: "bytes \<times> nat \<Rightarrow> bytes \<Rightarrow> bytes \<times> nat" where
  "fwrite st b =
     (case st of (content, pos) \<Rightarrow>
        (take pos content @ replicate (pos - length content) 0 @ b @ drop (pos + length b) content,
         pos + length b))"

definition fseek :: "bytes \<times> nat \<Rightarrow> nat \<Rightarrow> bytes \<times> nat" where
  "fseek st pos = (fst st, pos)"

definition ftell :: "bytes \<times> nat \<Rightarrow> nat" where
  "ftell st = snd st"

section \<open>Bitmap writer (particles.py) and reader (frames-to-avi.py)\<close>

text \<open>
  \<open>(n + 3) & ~3\<close> on Python's integers.
\<close>

definition round_up_4 :: "nat \<Rightarrow> nat" where
  "round_up_4 n = nat ((int n + 3) AND NOT 3)"

text \<open>
  \<open>save_frame_as_bmp\<close>: the bytes written to the file. The module constant \<open>BOX_SIZE\<close>
  is the first argument, so that the writer is stated for any box; the source is
  \<open>save_frame_as_bmp BOX_SIZE\<close>.
\<close>

definition save_frame_as_bmp :: "nat \<Rightarrow> bytes \<Rightarrow> error + bytes" where
  "save_frame_as_bmp box frame_data =
     (let file_size = 54 + (box * 3 + (4 - (box * 3) mod 4) mod 4) * box in
      seq (struct_pack
            [S 2 (ascii ''BM''), I (int file_size), H 0, H 0, I 54, I 40,
             I (int box), I (int box), H 1, H 24, I 0,
             I (int ((box * 3 + (4 - (box * 3) mod 4) mod 4) * box)),
             I 2835, I 2835, I 0, I 0])
        (\<lambda>bmp_header.
           let padded_row_size = round_up_4 (box * 3);
               padding = replicate (padded_row_size - box * 3) (0 :: byte);
               bmp_data =
                 fold (\<lambda>row bmp_data.
                         let start = row * box * 3
                         in bmp_data @ (slice frame_data start (start + box * 3) @ padding))
                      [0 ..< box] []
           in Inr (bmp_header @ bmp_data)))"

text \<open>
  The inner loop of \<open>read_bmp\<close>, \<open>for i in range(0, len(row_data), 3)\<close>: each slice of
  three bytes is unpacked into \<open>b, g, r\<close> and appended as \<open>r, g, b\<close>; a last slice of one
  or two bytes cannot be unpacked.
\<close>

fun convert_row :: "bytes \<Rightarrow> error + bytes" where
  "convert_row [] = Inr []"
| "convert_row [b] = Inl ValueError"
| "convert_row [b, g] = Inl ValueError"
| "convert_row (b # g # r # row_data) = seq (convert_row row_data) (\<lambda>px. Inr ([r, g, b] @ px))"

text \<open>The outer loop, \<open>for row in range(height)\<close>, on the rows still to do.\<close>

fun convert_rows :: "nat \<Rightarrow> nat \<Rightarrow> bytes \<Rightarrow> nat list \<Rightarrow> bytes \<Rightarrow> error + bytes" where
  "convert_rows width row_padded raw_data [] pixel_data = Inr pixel_data"
| "convert_rows width row_padded raw_data (row # rows) pixel_data =
     (let row_start = row * row_padded;
          row_end = row_start + width * 3;
          row_data = slice raw_data row_start row_end
      in seq (convert_row row_data)
           (\<lambda>px. convert_rows width row_padded raw_data rows (pixel_data @ px)))"

text \<open>\<open>read_bmp\<close> on the content of the file.\<close>

definition read_bmp :: "bytes \<Rightarrow> error + bytes" where
  "read_bmp f =
     seq (fread f 0 2) (\<lambda>(header_field, pos).
      if header_field \<noteq> ascii ''BM'' then Inl ValueError else
      seq (read_I f pos) (\<lambda>(file_size, pos).
      seq (read_H f pos) (\<lambda>(reserved1, pos).
      seq (read_H f pos) (\<lambda>(reserved2, pos).
      seq (read_I f pos) (\<lambda>(offset, pos).
      seq (read_I f pos) (\<lambda>(dib_header_size, pos).
      seq (read_I f pos) (\<lambda>(width, pos).
      seq (read_I f pos) (\<lambda>(height, pos).
      seq (read_H f pos) (\<lambda>(planes, pos).
      seq (read_H f pos) (\<lambda>(bit_count, pos).
      seq (read_I f pos) (\<lambda>(compression, pos).
      seq (read_I f pos) (\<lambda>(image_size, pos).
      seq (read_I f pos) (\<lambda>(x_ppm, pos).
      seq (read_I f pos) (\<lambda>(y_ppm, pos).
      seq (read_I f pos) (\<lambda>(clr_used, pos).
      seq (read_I f pos) (\<lambda>(clr_important, pos).
      if bit_count \<noteq> 24 then Inl ValueError else
      (let pos = offset;
           row_padded = round_up_4 (width * 3)
       in seq (fread f pos (row_padded * height)) (\<lambda>(raw_data, pos).
          convert_rows width row_padded raw_data [0 ..< height] []))))))))))))))))))"

text \<open>Vocabulary: a buffer with the first and the third byte of each pixel exchanged.\<close>

fun swap_channels :: "bytes \<Rightarrow> bytes" where
  "swap_channels (a # b # c # rest) = c # b # a # swap_channels rest"
| "swap_channels rest = rest"

text \<open>
  Vocabulary of the reader: the header fields where \<open>read_bmp\<close> reads them, the bytes it
  slices for a row, whether every row is a whole number of pixels, the pixel data it
  builds, whether the file holds all the padded rows its header announces, and the size
  of the read of the pixel data.
\<close>

definition bmp_offset :: "bytes \<Rightarrow> nat" where "bmp_offset f = le_value (slice f 10 14)"
definition bmp_width :: "bytes \<Rightarrow> nat" where "bmp_width f = le_value (slice f 18 22)"
definition bmp_height :: "bytes \<Rightarrow> nat" where "bmp_height f = le_value (slice f 22 26)"
definition bmp_bit_count :: "bytes \<Rightarrow> nat" where "bmp_bit_count f = le_value (slice f 28 30)"

definition bmp_row_data :: "bytes \<Rightarrow> nat \<Rightarrow> bytes" where
  "bmp_row_data f row =
     (let row_padded = round_up_4 (bmp_width f * 3);
          raw_data = take (row_padded * bmp_height f) (drop (bmp_offset f) f)
      in slice raw_data (row * row_padded) (row * row_padded + bmp_width f * 3))"

definition bmp_rows_whole :: "bytes \<Rightarrow> bool" where
  "bmp_rows_whole f = list_all (\<lambda>row. length (bmp_row_data f row) mod 3 = 0) [0 ..< bmp_height f]"

definition bmp_pixels :: "bytes \<Rightarrow> bytes" where
  "bmp_pixels f = concat (map (\<lambda>row. swap_channels (bmp_row_data f row)) [0 ..< bmp_height f])"

definition bmp_data_complete :: "bytes \<Rightarrow> bool" where
  "bmp_data_complete f \<longleftrightarrow> bmp_offset f + round_up_4 (bmp_width f * 3) * bmp_height f \<le> length f"

definition bmp_read_size :: "bytes \<Rightarrow> nat" where
  "bmp_read_size f = round_up_4 (bmp_width f * 3) * bmp_height f"

text \<open>
  Sample files: a header for a 1 by 1 image of 24 bits followed by a single byte of pixel
  data; the same header followed by its complete padded row; a header alone that announces
  a width and a height of \<open>2 ^ 32 - 1\<close>; the 2 by 2 all-red buffer (blue, green, red
  order, as \<open>generate_frame\<close> writes pixels) and its file.
\<close>

definition huge_dims_bmp :: bytes where
  "huge_dims_bmp =
     [66, 77,  54, 0, 0, 0,  0, 0,  0, 0,  54, 0, 0, 0,
      40, 0, 0, 0,  255, 255, 255, 255,  255, 255, 255, 255,  1, 0,  24, 0,  0, 0, 0, 0,
      0, 0, 0, 0,  19, 11, 0, 0,  19, 11, 0, 0,  0, 0, 0, 0,  0, 0, 0, 0]"

definition truncated_pixel_bmp :: bytes where
  "truncated_pixel_bmp =
     [66, 77,  55, 0, 0, 0,  0, 0,  0, 0,  54, 0, 0, 0,
      40, 0, 0, 0,  1, 0, 0, 0,  1, 0, 0, 0,  1, 0,  24, 0,  0, 0, 0, 0,  4, 0, 0, 0,
      19, 11, 0, 0,  19, 11, 0, 0,  0, 0, 0, 0,  0, 0, 0, 0,
      255]"

definition one_pixel_bmp :: bytes where
  "one_pixel_bmp =
     [66, 77,  58, 0, 0, 0,  0, 0,  0, 0,  54, 0, 0, 0,
      40, 0, 0, 0,  1, 0, 0, 0,  1, 0, 0, 0,  1, 0,  24, 0,  0, 0, 0, 0,  4, 0, 0, 0,
      19, 11, 0, 0,  19, 11, 0, 0,  0, 0, 0, 0,  0, 0, 0, 0,
      1, 2, 3, 0]"

definition red_2x2 :: bytes where
  "red_2x2 = [0, 0, 255,  0, 0, 255,  0, 0, 255,  0, 0, 255]"

definition red_2x2_bmp :: bytes where
  "red_2x2_bmp =
     [66, 77,  70, 0, 0, 0,  0, 0,  0, 0,  54, 0, 0, 0,
      40, 0, 0, 0,  2, 0, 0, 0,  2, 0, 0, 0,  1, 0,  24, 0,  0, 0, 0, 0,  16, 0, 0, 0,
      19, 11, 0, 0,  19, 11, 0, 0,  0, 0, 0, 0,  0, 0, 0, 0,
      0, 0, 255,  0, 0, 255,  0, 0,
      0, 0, 255,  0, 0, 255,  0, 0]"

section \<open>Container writer (frames-to-avi.py)\<close>

definition pad_to_even :: "bytes \<Rightarrow> bytes" where
  "pad_to_even data = (if length data mod 2 \<noteq> 0 then data @ [0] else data)"

text \<open>
  \<open>int(1e6 / frame_rate)\<close> for an integer frame rate that is not zero: the quotient,
  truncated towards zero.
\<close>

definition microsec_per_frame :: "int \<Rightarrow> int" where
  "microsec_per_frame frame_rate = sgn frame_rate * (1000000 div \<bar>frame_rate\<bar>)"

text \<open>Lines 88 to 114: the main header, from the constants \<open>width\<close> and \<open>height\<close>.\<close>

definition avi_width :: int where
  "avi_width = 200"

definition avi_height :: int where
  "avi_height = 200"

definition avih :: "nat \<Rightarrow> int \<Rightarrow> error + bytes" where
  "avih num_frames frame_rate =
     (let max_bytes_per_sec = avi_width * avi_height * 3 * frame_rate;
          padding_granularity = 0;
          flags = 16;
          total_frames = int num_frames;
          initial_frames = 0;
          streams = 1;
          suggested_buffer_size = avi_width * avi_height * 3;
          width_avi = avi_width;
          height_avi = avi_height
      in struct_pack
           [I (microsec_per_frame frame_rate), I max_bytes_per_sec, I padding_granularity,
            I flags, I total_frames, I initial_frames, I streams, I suggested_buffer_size,
            I width_avi, I height_avi, I 0, I 0, I 0, I 0])"

text \<open>Lines 117 to 147: the stream header.\<close>

definition strh :: "nat \<Rightarrow> int \<Rightarrow> error + bytes" where
  "strh num_frames frame_rate =
     (let suggested_buffer_size = avi_width * avi_height * 3
      in struct_pack
           [S 4 (ascii ''vids''), S 4 (ascii ''DIB ''), I 0, H 0, H 0, I 0, I 1,
            I frame_rate, I 0, I (int num_frames), I suggested_buffer_size, I 65535, I 0,
            S 16 (replicate 16 0)])"

text \<open>Lines 150 to 173: the stream format.\<close>

definition strf :: "error + bytes" where
  "strf =
     (let bi_size_image = avi_width * avi_height * 3
      in struct_pack
           [I 40, I avi_width, I avi_height, H 1, H 24, I 0, I bi_size_image,
            I 2835, I 2835, I 0, I 0])"

text \<open>A tag, the length of the payload as \<open>struct.pack('<I', len(data))\<close>, the payload.\<close>

definition chunk :: "string \<Rightarrow> bytes \<Rightarrow> error + bytes" where
  "chunk tag data =
     seq (struct_pack [I (int (length data))]) (\<lambda>n. Inr (ascii tag @ n @ data))"

text \<open>Lines 176 to 180: the \<open>hdrl\<close> list.\<close>

definition hdrl_list :: "nat \<Rightarrow> int \<Rightarrow> error + bytes" where
  "hdrl_list num_frames frame_rate =
     seq (avih num_frames frame_rate) (\<lambda>avih.
     seq (strh num_frames frame_rate) (\<lambda>strh.
     seq strf (\<lambda>strf.
     seq (chunk ''avih'' avih) (\<lambda>avih_chunk.
     seq (chunk ''strh'' strh) (\<lambda>strh_chunk.
     seq (chunk ''strf'' strf) (\<lambda>strf_chunk.
     seq (struct_pack [I (int (4 + length strh_chunk + length strf_chunk))]) (\<lambda>n.
     let strl_list = ascii ''LIST'' @ n @ ascii ''strl'' @ strh_chunk @ strf_chunk in
     seq (struct_pack [I (int (4 + length avih_chunk + length strl_list))]) (\<lambda>n.
     Inr (ascii ''LIST'' @ n @ ascii ''hdrl'' @ avih_chunk @ strl_list)))))))))"

text \<open>
  Lines 191 to 207: the loop over the frames, on the state \<open>movi_list\<close>,
  \<open>idx_entries\<close>, \<open>movi_data_offset\<close>.
\<close>

fun movi_loop :: "bytes list \<Rightarrow> bytes \<times> bytes list \<times> nat \<Rightarrow> error + bytes \<times> bytes list \<times> nat" where
  "movi_loop [] st = Inr st"
| "movi_loop (frame # frames) (movi_list, idx_entries, movi_data_offset) =
     (let chunk_id = ascii ''00dc'';
          frame_data = frame;
          frame_size = length frame_data
      in seq (struct_pack [I (int frame_size)]) (\<lambda>n.
         let frame_chunk = chunk_id @ n @ frame_data;
             frame_chunk = pad_to_even frame_chunk;
             movi_list = movi_list @ frame_chunk
         in seq (struct_pack [S 4 chunk_id, I 16, I (int movi_data_offset)]) (\<lambda>idx_entry.
            let idx_entries = idx_entries @ [idx_entry];
                movi_data_offset = movi_data_offset + length frame_chunk
            in movi_loop frames (movi_list, idx_entries, movi_data_offset))))"

text \<open>
  Lines 82 to 239 of \<open>create_avi\<close>, on the frames read and an integer frame rate: the
  content of the file written, or the exception.
\<close>

definition create_avi_body :: "bytes list \<Rightarrow> int \<Rightarrow> error + bytes" where
  "create_avi_body frames frame_rate =
     (let num_frames = length frames in
      if num_frames = 0 then Inl ValueError
      else if frame_rate = 0 then Inl ZeroDivisionError
      else
        seq (hdrl_list num_frames frame_rate) (\<lambda>hdrl_list.
        seq (movi_loop frames (ascii ''movi'', [], 0)) (\<lambda>(movi_list, idx_entries, movi_data_offset).
        seq (chunk ''LIST'' movi_list) (\<lambda>movi_chunk.
        let idx1 = fold (\<lambda>entry idx1. idx1 @ entry) idx_entries [] in
        seq (chunk ''idx1'' idx1) (\<lambda>idx1_chunk.
        seq (struct_pack [I 0]) (\<lambda>placeholder.
        let avi = ([], 0);
            avi = fwrite avi (ascii ''RIFF'');
            avi = fwrite avi placeholder;
            avi = fwrite avi (ascii ''AVI '');
            avi = fwrite avi hdrl_list;
            avi = fwrite avi movi_chunk;
            avi = fwrite avi idx1_chunk;
            file_size = int (ftell avi) - 8;
            avi = fseek avi 4
        in seq (struct_pack [I file_size]) (\<lambda>n.
           let avi = fwrite avi n in Inr (fst avi))))))))"

text \<open>
  \<open>create_avi\<close> on the contents of the \<open>.bmp\<close> files of the directory, in the sorted
  order of their names.
\<close>

fun read_frames :: "bytes list \<Rightarrow> error + bytes list" where
  "read_frames [] = Inr []"
| "read_frames (file # files) =
     seq (read_bmp file) (\<lambda>pixel_data.
     seq (read_frames files) (\<lambda>frames. Inr (pixel_data # frames)))"

definition create_avi :: "bytes list \<Rightarrow> int \<Rightarrow> error + bytes" where
  "create_avi frame_files frame_rate =
     (if frame_files = [] then Inl ValueError
      else seq (read_frames frame_files) (\<lambda>frames. create_avi_body frames frame_rate))"

text \<open>
  Vocabulary of the index: the length of the chunk of a frame (tag, length field, payload,
  padding to an even length) and the sum of these lengths over the frames before \<open>i\<close>.
\<close>

definition padded_chunk_len :: "bytes \<Rightarrow> nat" where
  "padded_chunk_len frame = 4 + 4 + length frame + length frame mod 2"

definition chunk_offset :: "bytes list \<Rightarrow> nat \<Rightarrow> nat" where
  "chunk_offset frames i = sum_list (map padded_chunk_len (take i frames))"

text \<open>
  Vocabulary of \<open>struct.pack\<close>: whether a field is in the range of its format, and
  the bytes it is packed to when it is.
\<close>

fun field_ok :: "field \<Rightarrow> bool" where
  "field_ok (I v) \<longleftrightarrow> 0 \<le> v \<and> v < 2 ^ 32"
| "field_ok (H v) \<longleftrightarrow> 0 \<le> v \<and> v < 2 ^ 16"
| "field_ok (S k b) \<longleftrightarrow> True"

fun field_bytes :: "field \<Rightarrow> bytes" where
  "field_bytes (I v) = le_bytes 4 (nat v)"
| "field_bytes (H v) = le_bytes 2 (nat v)"
| "field_bytes (S k b) = take k b @ replicate (k - length b) 0"

text \<open>
  Vocabulary of the container: the bytes of the three header records, of the \<open>hdrl\<close>
  list, of the chunk of a frame and of an index entry, the sizes, the whole file, and the
  condition under which every packed value fits its field.
\<close>

definition avih_layout :: "nat \<Rightarrow> int \<Rightarrow> bytes" where
  "avih_layout n fr =
     le_bytes 4 (nat (microsec_per_frame fr)) @ le_bytes 4 (nat (200 * 200 * 3 * fr)) @
     le_bytes 4 0 @ le_bytes 4 16 @ le_bytes 4 n @ le_bytes 4 0 @ le_bytes 4 1 @
     le_bytes 4 (200 * 200 * 3) @ le_bytes 4 200 @ le_bytes 4 200 @
     le_bytes 4 0 @ le_bytes 4 0 @ le_bytes 4 0 @ le_bytes 4 0"

definition strh_layout :: "nat \<Rightarrow> int \<Rightarrow> bytes" where
  "strh_layout n fr =
     ascii ''vids'' @ ascii ''DIB '' @ le_bytes 4 0 @ le_bytes 2 0 @ le_bytes 2 0 @
     le_bytes 4 0 @ le_bytes 4 1 @ le_bytes 4 (nat fr) @ le_bytes 4 0 @ le_bytes 4 n @
     le_bytes 4 (200 * 200 * 3) @ le_bytes 4 65535 @ le_bytes 4 0 @ replicate 16 0"

definition strf_layout :: bytes where
  "strf_layout =
     le_bytes 4 40 @ le_bytes 4 200 @ le_bytes 4 200 @ le_bytes 2 1 @ le_bytes 2 24 @
     le_bytes 4 0 @ le_bytes 4 (200 * 200 * 3) @ le_bytes 4 2835 @ le_bytes 4 2835 @
     le_bytes 4 0 @ le_bytes 4 0"

definition hdrl_layout :: "nat \<Rightarrow> int \<Rightarrow> bytes" where
  "hdrl_layout n fr =
     ascii ''LIST'' @ le_bytes 4 200 @ ascii ''hdrl'' @
     ascii ''avih'' @ le_bytes 4 56 @ avih_layout n fr @
     ascii ''LIST'' @ le_bytes 4 124 @ ascii ''strl'' @
     ascii ''strh'' @ le_bytes 4 64 @ strh_layout n fr @
     ascii ''strf'' @ le_bytes 4 40 @ strf_layout"

definition frame_chunk :: "bytes \<Rightarrow> bytes" where
  "frame_chunk frame = pad_to_even (ascii ''00dc'' @ le_bytes 4 (length frame) @ frame)"

definition idx_entry :: "nat \<Rightarrow> bytes" where
  "idx_entry off = ascii ''00dc'' @ le_bytes 4 16 @ le_bytes 4 off"

definition movi_size :: "bytes list \<Rightarrow> nat" where
  "movi_size frames = chunk_offset frames (length frames)"

definition riff_size :: "bytes list \<Rightarrow> nat" where
  "riff_size frames = 4 + 208 + (8 + (4 + movi_size frames)) + (8 + 12 * length frames)"

definition avi_layout :: "bytes list \<Rightarrow> int \<Rightarrow> bytes" where
  "avi_layout frames fr =
     ascii ''RIFF'' @ le_bytes 4 (riff_size frames) @ ascii ''AVI '' @
     hdrl_layout (length frames) fr @
     ascii ''LIST'' @ le_bytes 4 (4 + movi_size frames) @ ascii ''movi'' @
     concat (map frame_chunk frames) @
     ascii ''idx1'' @ le_bytes 4 (12 * length frames) @
     concat (map (\<lambda>i. idx_entry (chunk_offset frames i)) [0 ..< length frames])"

definition avi_fits :: "bytes list \<Rightarrow> int \<Rightarrow> bool" where
  "avi_fits frames fr \<longleftrightarrow> 0 < fr \<and> 200 * 200 * 3 * fr < 2 ^ 32 \<and> riff_size frames < 2 ^ 32"

text \<open>A sample sequence of two frames of 3 and 6 bytes.\<close>

definition two_sizes :: "bytes list" where
  "two_sizes = [[1, 2, 3], [1, 2, 3, 4, 5, 6]]"

section \<open>Properties of the particle engine\<close>

lemma upt_0_2: "[0 ..< 2] = [0, Suc 0]"
  by (simp add: upt_rec)

lemma upt_1_2: "[Suc 0 ..< 2] = [Suc 0]"
  by (simp add: upt_rec)

text \<open>On a population of two the double loop runs its body once, on the pair \<open>(0, 1)\<close>.\<close>

lemma handle_pair:
  "handle_particle_collisions g ([p1, p2], k) =
     (case collide g k p1 p2 of (q1, q2, k') \<Rightarrow> ([q1, q2], k'))"
  by (simp add: handle_particle_collisions_def collide_at_def upt_0_2 upt_1_2
      split: prod.splits)

lemma wall_in_box: "in_box (handle_wall_collisions p)"
  by (simp add: handle_wall_collisions_def in_box_def Let_def BOX_SIZE_def PARTICLE_RADIUS_def)

lemma collide_at_apart:
  assumes "i < length ps" "j < length ps"
    and "2 * real PARTICLE_RADIUS \<le> distance_between (ps ! i) (ps ! j)"
  shows "collide_at g i j (ps, k) = (ps, k)"
  using assms
  by (simp add: collide_at_def collide_def separation_def distance_between_def Let_def)

lemma inner_apart:
  assumes "i < length ps"
    and "\<forall>j \<in> set js. j < length ps \<and>
           2 * real PARTICLE_RADIUS \<le> distance_between (ps ! i) (ps ! j)"
  shows "fold (\<lambda>j s. collide_at g i j s) js (ps, k) = (ps, k)"
  using assms by (induction js) (simp_all add: collide_at_apart)

lemma outer_apart:
  assumes "\<forall>i \<in> set is. i < length ps \<and>
             (\<forall>j. i < j \<and> j < length ps \<longrightarrow>
                  2 * real PARTICLE_RADIUS \<le> distance_between (ps ! i) (ps ! j))"
  shows "fold (\<lambda>i s. fold (\<lambda>j s. collide_at g i j s) [i + 1 ..< length (fst s)] s) is (ps, k)
         = (ps, k)"
  using assms by (induction "is") (simp_all add: inner_apart)

lemma handle_apart:
  assumes "\<forall>i j. i < j \<and> j < length ps \<longrightarrow>
             2 * real PARTICLE_RADIUS \<le> distance_between (ps ! i) (ps ! j)"
  shows "handle_particle_collisions g (ps, k) = (ps, k)"
  unfolding handle_particle_collisions_def fst_conv
  by (rule outer_apart) (use assms in auto)

text \<open>
  Claim C2, as stated: after a completed step (position update, wall handling, pairwise
  handling) every particle has both coordinates in \<open>[radius, boxSize - radius]\<close>.
  It fails: the positional correction of the pairwise response is not clamped. A particle
  at \<open>(5, 100)\<close> moving right at speed 1 and a resting one at \<open>(8, 100)\<close> overlap after
  the move; the response pushes the first one to \<open>x = 2\<close>, below the radius 5.
\<close>

theorem step_leaves_box_counterexample:
  "fst (simulation_step zero_draws ([mk_particle 5 100 1 0, mk_particle 8 100 0 0], 0))
     = [mk_particle 2 100 0 0, mk_particle 12 100 1 0]
   \<and> \<not> in_box (mk_particle 2 100 0 0)"
  by (simp add: simulation_step_def handle_pair update_position_def handle_wall_collisions_def
      collide_def separation_def collision_normal_def normal_velocity_def hypot_def
      mk_particle_def Let_def in_box_def BOX_SIZE_def PARTICLE_RADIUS_def TIME_STEP_def)

text \<open>
  Claim C2, amended: after the position update and the wall handling of a step every
  particle has both coordinates in \<open>[radius, boxSize - radius]\<close>; the completed step
  keeps them there whenever no two particles are closer than twice the radius after the
  wall handling (the pairwise handling then changes nothing).
\<close>

theorem step_in_box_after_walls:
  "(\<forall>p \<in> set ps. in_box (handle_wall_collisions (update_position p))) \<and>
   ((\<forall>i j. i < j \<and> j < length ps \<longrightarrow>
        2 * real PARTICLE_RADIUS \<le>
          distance_between (handle_wall_collisions (update_position (ps ! i)))
                           (handle_wall_collisions (update_position (ps ! j))))
    \<longrightarrow> simulation_step g (ps, k)
          = (map (\<lambda>p. handle_wall_collisions (update_position p)) ps, k)
        \<and> (\<forall>q \<in> set (fst (simulation_step g (ps, k))). in_box q))"
proof (intro conjI impI)
  show "\<forall>p \<in> set ps. in_box (handle_wall_collisions (update_position p))"
    by (simp add: wall_in_box)
next
  assume apart: "\<forall>i j. i < j \<and> j < length ps \<longrightarrow>
        2 * real PARTICLE_RADIUS \<le>
          distance_between (handle_wall_collisions (update_position (ps ! i)))
                           (handle_wall_collisions (update_position (ps ! j)))"
  let ?qs = "map (\<lambda>p. handle_wall_collisions (update_position p)) ps"
  have "\<forall>i j. i < j \<and> j < length ?qs \<longrightarrow>
          2 * real PARTICLE_RADIUS \<le> distance_between (?qs ! i) (?qs ! j)"
    using apart by simp
  then have "handle_particle_collisions g (?qs, k) = (?qs, k)"
    by (rule handle_apart)
  then show step: "simulation_step g (ps, k) = (?qs, k)"
    by (simp add: simulation_step_def)
  show "\<forall>q \<in> set (fst (simulation_step g (ps, k))). in_box q"
    unfolding step by (auto simp: wall_in_box)
qed

theorem step_in_box_after_walls_witness:
  "in_box (handle_wall_collisions (update_position (mk_particle 5 100 (- 1) 0))) \<and>
   simulation_step zero_draws ([mk_particle 5 100 (- 1) 0, mk_particle 50 100 0 0], 0)
     = ([mk_particle 5 100 1 0, mk_particle 50 100 0 0], 0) \<and>
   in_box (mk_particle 5 100 1 0) \<and> in_box (mk_particle 50 100 0 0)"
proof -
  let ?a = "mk_particle 5 100 (- 1) 0" and ?b = "mk_particle 50 100 0 0"
  have wa: "handle_wall_collisions (update_position ?a) = mk_particle 5 100 1 0"
    by (simp add: update_position_def handle_wall_collisions_def mk_particle_def Let_def
        BOX_SIZE_def PARTICLE_RADIUS_def TIME_STEP_def)
  have wb: "handle_wall_collisions (update_position ?b) = ?b"
    by (simp add: update_position_def handle_wall_collisions_def mk_particle_def Let_def
        BOX_SIZE_def PARTICLE_RADIUS_def TIME_STEP_def)
  have d: "distance_between (mk_particle 5 100 1 0) ?b = 45"
    by (simp add: distance_between_def hypot_def mk_particle_def)
  have apart: "\<forall>i j. i < j \<and> j < length [?a, ?b] \<longrightarrow>
        2 * real PARTICLE_RADIUS \<le>
          distance_between (handle_wall_collisions (update_position ([?a, ?b] ! i)))
                           (handle_wall_collisions (update_position ([?a, ?b] ! j)))"
    by (auto simp: less_Suc_eq wa wb d PARTICLE_RADIUS_def)
  show ?thesis
    using step_in_box_after_walls [of "[?a, ?b]" zero_draws 0] apart
    by (simp add: wa wb)
qed

subsection \<open>The pairwise response\<close>

lemma unit_normal:
  assumes "d = sqrt (dx\<^sup>2 + dy\<^sup>2)" "d \<noteq> 0"
  shows "(dx / d)\<^sup>2 + (dy / d)\<^sup>2 = 1"
proof -
  have "0 \<le> dx\<^sup>2 + dy\<^sup>2" by simp
  then have "d\<^sup>2 = dx\<^sup>2 + dy\<^sup>2" using assms(1) by simp
  moreover have "d\<^sup>2 \<noteq> 0" using assms(2) by simp
  ultimately show ?thesis
    by (simp add: power_divide add_divide_distrib [symmetric])
qed

lemma exchange_energy:
  fixes a b c e nx ny :: real
  assumes "nx\<^sup>2 + ny\<^sup>2 = 1" "t = (a - c) * nx + (b - e) * ny"
  shows "(a - t * nx)\<^sup>2 + (b - t * ny)\<^sup>2 + (c + t * nx)\<^sup>2 + (e + t * ny)\<^sup>2
         = a\<^sup>2 + b\<^sup>2 + c\<^sup>2 + e\<^sup>2"
proof -
  have "(a - t * nx)\<^sup>2 + (b - t * ny)\<^sup>2 + (c + t * nx)\<^sup>2 + (e + t * ny)\<^sup>2
      = a\<^sup>2 + b\<^sup>2 + c\<^sup>2 + e\<^sup>2 + 2 * t\<^sup>2 * (nx\<^sup>2 + ny\<^sup>2)
        - 2 * t * ((a - c) * nx + (b - e) * ny)"
    by (simp add: power2_eq_square algebra_simps)
  also have "\<dots> = a\<^sup>2 + b\<^sup>2 + c\<^sup>2 + e\<^sup>2 + 2 * t\<^sup>2 - 2 * t * t"
    using assms by simp
  finally show ?thesis by (simp add: power2_eq_square)
qed

text \<open>
  Away from the degenerate branch the collision vector is a unit vector, and the exchange
  keeps the sum of the velocities and the sum of the squared speeds.
\<close>

lemma collide_elastic_apart:
  assumes "distance_between p1 p2 \<noteq> 0" "collide g k p1 p2 = (q1, q2, k')"
  shows "momentum q1 q2 = momentum p1 p2 \<and> squared_speeds q1 q2 = squared_speeds p1 p2"
proof -
  define dx where "dx = pos_x p1 - pos_x p2"
  define dy where "dy = pos_y p1 - pos_y p2"
  define d where "d = sqrt (dx\<^sup>2 + dy\<^sup>2)"
  have d0: "d \<noteq> 0"
    using assms(1) by (simp add: distance_between_def hypot_def d_def dx_def dy_def)
  have u: "(dx / d)\<^sup>2 + (dy / d)\<^sup>2 = 1"
    using unit_normal [OF d_def d0] .
  note e = exchange_energy [OF u refl, of "vel_x p1" "vel_x p2" "vel_y p1" "vel_y p2"]
  show ?thesis
    using assms(2) d0 e
    by (auto simp: collide_def separation_def collision_normal_def normal_velocity_def
        hypot_def Let_def momentum_def squared_speeds_def
        d_def [symmetric] dx_def [symmetric] dy_def [symmetric]
        split: if_splits)
qed

text \<open>
  Claim C3: a pairwise response keeps the sum of the two velocities and the sum of the
  squared speeds. The code breaks it in its degenerate branch: for two particles at the
  same position the collision vector is \<open>(cos angle, sin angle)\<close> divided by \<open>1e-6\<close>,
  a vector of length one million, not a unit vector. With both particles at \<open>(10, 10)\<close>,
  velocities \<open>(-1, 0)\<close> and \<open>(1, 0)\<close> and the drawn angle 0, the response is applied
  (the projection is negative), the sum of the velocities stays \<open>(0, 0)\<close>, and the sum of
  the squared speeds goes from 2 to \<open>2 * 1999999999999\<^sup>2\<close>.
\<close>

theorem coincident_pair_gains_energy:
  "collide zero_draws 0 (mk_particle 10 10 (- 1) 0) (mk_particle 10 10 1 0)
     = (mk_particle (10000019 / 2) 10 1999999999999 0,
        mk_particle (- 9999979 / 2) 10 (- 1999999999999) 0, 1)
   \<and> squared_speeds (mk_particle 10 10 (- 1) 0) (mk_particle 10 10 1 0) = 2
   \<and> squared_speeds (mk_particle (10000019 / 2) 10 1999999999999 0)
                    (mk_particle (- 9999979 / 2) 10 (- 1999999999999) 0)
     = 7999999999992000000000002"
  by (simp add: collide_def separation_def collision_normal_def normal_velocity_def hypot_def
      mk_particle_def Let_def zero_draws_def PARTICLE_RADIUS_def squared_speeds_def)

subsection \<open>The head-on pair\<close>

text \<open>
  In exact arithmetic the head-on pair at \<open>(10, 10)\<close> and \<open>(10, 10 + r)\<close> leaves the
  pass with the velocities exchanged and at a distance of \<open>2 * radius\<close>. This is a fact
  of the idealised model; the floats of the program are treated next.
\<close>

lemma head_on_pair_exact_arithmetic:
  assumes "0 < r" "r < 2 * real PARTICLE_RADIUS"
  shows "handle_particle_collisions g
           ([mk_particle 10 10 0 1, mk_particle 10 (10 + r) 0 (- 1)], k)
         = ([mk_particle 10 (10 - (2 * real PARTICLE_RADIUS - r) / 2) 0 (- 1),
             mk_particle 10 (10 + r + (2 * real PARTICLE_RADIUS - r) / 2) 0 1], k)
       \<and> distance_between
           (mk_particle 10 (10 - (2 * real PARTICLE_RADIUS - r) / 2) 0 (- 1))
           (mk_particle 10 (10 + r + (2 * real PARTICLE_RADIUS - r) / 2) 0 1)
         = 2 * real PARTICLE_RADIUS"
proof
  show "handle_particle_collisions g
           ([mk_particle 10 10 0 1, mk_particle 10 (10 + r) 0 (- 1)], k)
         = ([mk_particle 10 (10 - (2 * real PARTICLE_RADIUS - r) / 2) 0 (- 1),
             mk_particle 10 (10 + r + (2 * real PARTICLE_RADIUS - r) / 2) 0 1], k)"
    using assms
    by (simp add: handle_pair collide_def separation_def collision_normal_def
        normal_velocity_def hypot_def mk_particle_def Let_def)
  show "distance_between
           (mk_particle 10 (10 - (2 * real PARTICLE_RADIUS - r) / 2) 0 (- 1))
           (mk_particle 10 (10 + r + (2 * real PARTICLE_RADIUS - r) / 2) 0 1)
         = 2 * real PARTICLE_RADIUS"
    by (simp add: distance_between_def hypot_def mk_particle_def real_sqrt_mult)
qed





















subsection \<open>Pairs that are already separating\<close>



section \<open>Properties of the bitmap writer and reader\<close>

lemma and_minus_4: "(k::int) AND - 4 = k div 4 * 4"
proof -
  have s: "\<And>n. 2 \<le> n \<Longrightarrow> Suc (Suc (n - 2)) = n" by arith
  have "k AND NOT (mask 2) = push_bit 2 (drop_bit 2 k)"
    by (rule bit_eqI) (auto simp: bit_simps s not_less)
  then show ?thesis by (simp add: mask_eq_exp_minus_1 push_bit_eq_mult drop_bit_eq_div)
qed

lemma round_up_4_eq: "round_up_4 n = (n + 3) div 4 * 4"
proof -
  have "(int n + 3) AND - 4 = (int n + 3) div 4 * 4"
    by (rule and_minus_4)
  also have "\<dots> = int ((n + 3) div 4 * 4)"
    by (simp add: zdiv_int)
  finally show ?thesis by (simp add: round_up_4_def)
qed

lemma round_up_4_ge: "n \<le> round_up_4 n"
proof -
  define q where "q = (n + 3) div 4"
  define r where "r = (n + 3) mod 4"
  have "q * 4 + r = n + 3" unfolding q_def r_def by (rule div_mult_mod_eq)
  moreover have "r < 4" unfolding r_def by simp
  ultimately have "n \<le> q * 4" by linarith
  then show ?thesis unfolding round_up_4_eq q_def .
qed

lemma round_up_4_pad: "round_up_4 n = n + (4 - n mod 4) mod 4"
proof -
  define q where "q = n div 4"
  define r where "r = n mod 4"
  have n: "n = 4 * q + r" by (simp add: q_def r_def)
  have "r < 4" by (simp add: r_def)
  then have "r = 0 \<or> r = 1 \<or> r = 2 \<or> r = 3" by linarith
  then have "(4 * q + r + 3) div 4 * 4 = 4 * q + r + (4 - r) mod 4"
    by (elim disjE) simp_all
  moreover have "n mod 4 = r" by (simp add: r_def)
  ultimately show ?thesis
    unfolding round_up_4_eq by (simp add: n)
qed

lemma ascii_BM: "ascii ''BM'' = [66, 77]"
  by (simp add: ascii_def)

lemma le_bytes_4: "le_bytes 4 v = [word_of_nat v, word_of_nat (v div 256), word_of_nat (v div 256 div 256), word_of_nat (v div 256 div 256 div 256)]"
proof -
  have "(4::nat) = Suc (Suc (Suc (Suc 0)))" by simp
  then show ?thesis by (simp only: le_bytes.simps)
qed

lemma le_bytes_2: "le_bytes 2 v = [word_of_nat v, word_of_nat (v div 256)]"
proof -
  have "(2::nat) = Suc (Suc 0)" by simp
  then show ?thesis by (simp only: le_bytes.simps)
qed

lemma length_le_bytes: "length (le_bytes k v) = k"
  by (induction k arbitrary: v) simp_all

lemma unat_byte_of_nat: "unat (word_of_nat v :: byte) = v mod 256"
  by (simp add: unat_of_nat)

lemma le_value_le_bytes: "v < 256 ^ k \<Longrightarrow> le_value (le_bytes k v) = v"
proof (induction k arbitrary: v)
  case 0
  then show ?case by simp
next
  case (Suc k)
  have "v div 256 < 256 ^ k" using Suc.prems by (simp add: less_mult_imp_div_less mult.commute)
  then have "le_value (le_bytes k (v div 256)) = v div 256" by (rule Suc.IH)
  then show ?case by (simp add: unat_byte_of_nat)
qed

lemma slice_take_drop: "slice f a (a + n) = take n (drop a f)"
  by (simp add: slice_def drop_take)

lemma read_I_eq: "read_I f pos = (if pos + 4 \<le> length f then Inr (le_value (slice f pos (pos + 4)), pos + 4) else Inl StructError)"
proof (cases "pos + 4 \<le> length f")
  case True
  then have "length (take 4 (drop pos f)) = 4" by simp
  then show ?thesis using True
    by (simp add: read_I_def fread_def unpack_I_def seq_def slice_def drop_take Let_def sys_maxsize_def)
next
  case False
  then have "length (take 4 (drop pos f)) \<noteq> 4" by simp
  then show ?thesis using False
    by (simp add: read_I_def fread_def unpack_I_def seq_def Let_def sys_maxsize_def)
qed

lemma read_H_eq: "read_H f pos = (if pos + 2 \<le> length f then Inr (le_value (slice f pos (pos + 2)), pos + 2) else Inl StructError)"
proof (cases "pos + 2 \<le> length f")
  case True
  then have "length (take 2 (drop pos f)) = 2" by simp
  then show ?thesis using True
    by (simp add: read_H_def fread_def unpack_H_def seq_def slice_def drop_take Let_def sys_maxsize_def)
next
  case False
  then have "length (take 2 (drop pos f)) \<noteq> 2" by simp
  then show ?thesis using False
    by (simp add: read_H_def fread_def unpack_H_def seq_def Let_def sys_maxsize_def)
qed

lemma fread_2: "fread f pos 2 = Inr (take 2 (drop pos f), pos + length (take 2 (drop pos f)))"
  by (simp add: fread_def sys_maxsize_def Let_def)

lemma read_bmp_bad_magic: "take 2 f \<noteq> ascii ''BM'' \<Longrightarrow> read_bmp f = Inl ValueError"
  by (simp add: read_bmp_def fread_2 seq_def)

lemma read_bmp_parsed:
  assumes "take 2 f = ascii ''BM''" "54 \<le> length f"
  shows "read_bmp f =
    (if bmp_bit_count f \<noteq> 24 then Inl ValueError
     else if sys_maxsize < bmp_read_size f then Inl OverflowError
     else convert_rows (bmp_width f) (round_up_4 (bmp_width f * 3))
            (take (round_up_4 (bmp_width f * 3) * bmp_height f) (drop (bmp_offset f) f))
            [0 ..< bmp_height f] [])"
proof -
  have l2: "min (length f) 2 = 2" using assms(2) by simp
  have big: "fread f pos n = (if sys_maxsize < n then Inl OverflowError
                               else Inr (take n (drop pos f), pos + length (take n (drop pos f))))"
    for pos n
    by (simp add: fread_def Let_def)
  show ?thesis
    using assms
    by (simp add: read_bmp_def fread_2 read_I_eq read_H_eq seq_def l2 Let_def ascii_BM
        bmp_offset_def bmp_width_def bmp_height_def bmp_bit_count_def bmp_read_size_def big)
qed

lemma read_bmp_short:
  assumes "take 2 f = ascii ''BM''" "length f < 54"
  shows "read_bmp f = Inl StructError"
proof -
  have l2: "min (length f) 2 = 2" using assms(1) by (cases f; cases "tl f") (auto simp: ascii_BM)
  show ?thesis
    using assms
    by (simp add: read_bmp_def fread_2 read_I_eq read_H_eq seq_def l2 Let_def ascii_BM)
qed

lemma convert_row_whole: "length r mod 3 = 0 \<Longrightarrow> convert_row r = Inr (swap_channels r)"
  by (induction r rule: convert_row.induct) (simp_all add: seq_def)

lemma convert_row_broken: "length r mod 3 \<noteq> 0 \<Longrightarrow> convert_row r = Inl ValueError"
  by (induction r rule: convert_row.induct) (simp_all add: seq_def)

lemma length_swap_channels: "length (swap_channels r) = length r"
  by (induction r rule: swap_channels.induct) simp_all

lemma convert_rows_eq:
  "convert_rows w rp raw rows acc =
     (if \<forall>row \<in> set rows. length (slice raw (row * rp) (row * rp + w * 3)) mod 3 = 0
      then Inr (acc @ concat (map (\<lambda>row. swap_channels (slice raw (row * rp) (row * rp + w * 3))) rows))
      else Inl ValueError)"
proof (induction rows arbitrary: acc)
  case Nil
  then show ?case by simp
next
  case (Cons row rows)
  show ?case
  proof (cases "length (slice raw (row * rp) (row * rp + w * 3)) mod 3 = 0")
    case True
    then show ?thesis
      by (simp add: Let_def seq_def convert_row_whole Cons.IH)
  next
    case False
    then show ?thesis
      by (simp add: Let_def seq_def convert_row_broken)
  qed
qed

lemma swap_channels_append:
  "length a mod 3 = 0 \<Longrightarrow> swap_channels (a @ b) = swap_channels a @ swap_channels b"
  by (induction a rule: swap_channels.induct) simp_all

lemma swap_channels_concat:
  "\<forall>b \<in> set bs. length b mod 3 = 0 \<Longrightarrow> swap_channels (concat bs) = concat (map swap_channels bs)"
  by (induction bs) (simp_all add: swap_channels_append)

lemma fold_append_concat:
  "fold (\<lambda>r acc. acc @ g r) rs acc = acc @ concat (map g rs)"
  by (induction rs arbitrary: acc) simp_all

lemma drop_blocks:
  assumes "\<forall>r \<in> set rs. length (g r) = m" "i \<le> length rs"
  shows "drop (i * m) (concat (map g rs)) = concat (map g (drop i rs))"
  using assms
proof (induction rs arbitrary: i)
  case Nil
  then show ?case by simp
next
  case (Cons r rs)
  show ?case
  proof (cases i)
    case 0
    then show ?thesis by simp
  next
    case (Suc j)
    then show ?thesis using Cons by simp
  qed
qed

lemma rows_of_buffer:
  "concat (map (\<lambda>row. slice x (row * m) (row * m + m)) [0 ..< n]) = take (n * m) x"
proof (induction n)
  case 0
  then show ?case by simp
next
  case (Suc n)
  have "take (n * m) x @ slice x (n * m) (n * m + m) = take (n * m + m) x"
    by (simp only: slice_take_drop take_add)
  then show ?case using Suc by (simp add: add.commute)
qed

lemma read_bmp_eq:
  "read_bmp f =
     (if take 2 f \<noteq> ascii ''BM'' then Inl ValueError
      else if length f < 54 then Inl StructError
      else if bmp_bit_count f \<noteq> 24 then Inl ValueError
      else if sys_maxsize < bmp_read_size f then Inl OverflowError
      else if \<not> bmp_rows_whole f then Inl ValueError
      else Inr (bmp_pixels f))"
proof (cases "take 2 f = ascii ''BM'' \<and> 54 \<le> length f")
  case True
  then show ?thesis
    by (simp add: read_bmp_parsed convert_rows_eq bmp_rows_whole_def bmp_pixels_def
        bmp_row_data_def Let_def list_all_iff)
next
  case False
  then show ?thesis
    by (auto simp: read_bmp_bad_magic read_bmp_short)
qed

lemma row_data_complete:
  assumes "bmp_data_complete f" "row < bmp_height f"
  shows "length (bmp_row_data f row) = bmp_width f * 3"
proof -
  define rp where "rp = round_up_4 (bmp_width f * 3)"
  define h where "h = bmp_height f"
  define w3 where "w3 = bmp_width f * 3"
  have a: "bmp_offset f + rp * h \<le> length f"
    using assms(1) by (simp add: bmp_data_complete_def rp_def h_def)
  have b: "w3 \<le> rp" unfolding rp_def w3_def by (rule round_up_4_ge)
  have "Suc row * rp \<le> h * rp" using assms(2) unfolding h_def by (intro mult_le_mono1) simp
  then have c: "row * rp + rp \<le> rp * h" by (simp add: mult.commute)
  have "length (take (rp * h) (drop (bmp_offset f) f)) = rp * h" using a by simp
  then have "length (slice (take (rp * h) (drop (bmp_offset f) f)) (row * rp) (row * rp + w3)) = w3"
    using b c by (simp add: slice_def)
  then show ?thesis
    by (simp add: bmp_row_data_def Let_def rp_def h_def w3_def)
qed

lemma rows_whole_complete:
  assumes "bmp_data_complete f"
  shows "bmp_rows_whole f"
  using row_data_complete [OF assms] by (simp add: bmp_rows_whole_def list_all_iff)

lemma length_concat_const:
  "\<forall>r \<in> set rs. length (g r) = m \<Longrightarrow> length (concat (map g rs)) = length rs * m"
  by (induction rs) simp_all

lemma length_pixels_complete:
  assumes "bmp_data_complete f"
  shows "length (bmp_pixels f) = bmp_width f * bmp_height f * 3"
proof -
  have "\<forall>row \<in> set [0 ..< bmp_height f]. length (swap_channels (bmp_row_data f row)) = bmp_width f * 3"
    using row_data_complete [OF assms] by (simp add: length_swap_channels)
  then have "length (bmp_pixels f) = length [0 ..< bmp_height f] * (bmp_width f * 3)"
    unfolding bmp_pixels_def by (rule length_concat_const)
  then show ?thesis by (simp add: mult_ac)
qed

text \<open>
  Claim C9, amended: \<open>read_bmp\<close> raises \<open>ValueError\<close> when the first two bytes are not
  \<open>BM\<close>; it raises \<open>struct.error\<close> exactly when the magic is \<open>BM\<close> and the file is
  shorter than the 54 bytes of the header; with the magic and a complete header it raises
  \<open>ValueError\<close> when the bit count is not 24; with a bit count of 24 it raises
  \<open>OverflowError\<close> when the size of the pixel data it asks for, row stride times height,
  exceeds \<open>sys.maxsize\<close>, and, when that size is at most the length of the file, it
  raises \<open>ValueError\<close> exactly when the bytes available for some row are not a whole
  number of 3-byte pixels and returns the pixel data otherwise. With all the padded rows
  present it returns \<open>width * height * 3\<close> bytes. (Between the length of the file and
  \<open>sys.maxsize\<close> the read can fail for lack of memory; nothing is stated there.)
\<close>

theorem read_bmp_outcomes:
  "(take 2 f \<noteq> ascii ''BM'' \<longrightarrow> read_bmp f = Inl ValueError) \<and>
   (read_bmp f = Inl StructError \<longleftrightarrow> take 2 f = ascii ''BM'' \<and> length f < 54) \<and>
   (take 2 f = ascii ''BM'' \<and> 54 \<le> length f \<and> bmp_bit_count f \<noteq> 24 \<longrightarrow>
      read_bmp f = Inl ValueError) \<and>
   (take 2 f = ascii ''BM'' \<and> 54 \<le> length f \<and> bmp_bit_count f = 24 \<and>
    sys_maxsize < bmp_read_size f \<longrightarrow>
      read_bmp f = Inl OverflowError) \<and>
   (take 2 f = ascii ''BM'' \<and> 54 \<le> length f \<and> bmp_bit_count f = 24 \<and>
    bmp_read_size f \<le> length f \<and> length f \<le> sys_maxsize \<longrightarrow>
      (read_bmp f = Inl ValueError \<longleftrightarrow> \<not> bmp_rows_whole f) \<and>
      (read_bmp f = Inr (bmp_pixels f) \<longleftrightarrow> bmp_rows_whole f)) \<and>
   (take 2 f = ascii ''BM'' \<and> 54 \<le> length f \<and> bmp_bit_count f = 24 \<and>
    bmp_data_complete f \<and> length f \<le> sys_maxsize \<longrightarrow>
      read_bmp f = Inr (bmp_pixels f) \<and> length (bmp_pixels f) = bmp_width f * bmp_height f * 3)"
proof -
  have "bmp_read_size f \<le> length f" if "bmp_data_complete f"
    using that by (simp add: bmp_data_complete_def bmp_read_size_def)
  then show ?thesis
    using rows_whole_complete [of f] length_pixels_complete [of f]
    by (auto simp: read_bmp_eq)
qed

lemma one_pixel_fields:
  "take 2 one_pixel_bmp = ascii ''BM''" "length one_pixel_bmp = 58"
  "bmp_bit_count one_pixel_bmp = 24" "bmp_width one_pixel_bmp = 1" "bmp_height one_pixel_bmp = 1"
  "bmp_offset one_pixel_bmp = 54"
  by (simp_all add: one_pixel_bmp_def ascii_BM bmp_bit_count_def bmp_width_def bmp_height_def bmp_offset_def slice_def)

lemma round_up_4_3: "round_up_4 3 = 4"
  by (simp add: round_up_4_eq)

lemma huge_dims_fields:
  "take 2 huge_dims_bmp = ascii ''BM''" "length huge_dims_bmp = 54"
  "bmp_bit_count huge_dims_bmp = 24" "bmp_width huge_dims_bmp = 4294967295"
  "bmp_height huge_dims_bmp = 4294967295"
  by (simp_all add: huge_dims_bmp_def ascii_BM bmp_bit_count_def bmp_width_def bmp_height_def slice_def)

theorem read_bmp_outcomes_witness:
  "read_bmp one_pixel_bmp = Inr [3, 2, 1] \<and> read_bmp [66, 77, 0] = Inl StructError
   \<and> read_bmp [] = Inl ValueError \<and> read_bmp huge_dims_bmp = Inl OverflowError"
proof -
  have c: "bmp_data_complete one_pixel_bmp" "length one_pixel_bmp \<le> sys_maxsize"
    by (simp_all add: bmp_data_complete_def one_pixel_fields round_up_4_3 sys_maxsize_def)
  have p: "bmp_pixels one_pixel_bmp = [3, 2, 1]"
    by (simp add: bmp_pixels_def bmp_row_data_def one_pixel_fields round_up_4_3 Let_def)
       (simp add: one_pixel_bmp_def slice_def)
  have h: "sys_maxsize < bmp_read_size huge_dims_bmp"
    by (simp add: bmp_read_size_def huge_dims_fields round_up_4_eq sys_maxsize_def)
  show ?thesis
    using read_bmp_outcomes [of one_pixel_bmp] read_bmp_outcomes [of "[66, 77, 0]"]
      read_bmp_outcomes [of "[]"] read_bmp_outcomes [of huge_dims_bmp] c h
    by (simp add: one_pixel_fields huge_dims_fields p ascii_BM)
qed

text \<open>
  Claim C9, as stated: the reader fails exactly when the magic is not \<open>BM\<close>, the bit
  count is not 24 or the header is truncated. It fails: a file with the magic, a complete
  header of 54 bytes and a bit count of 24, but with a row cut inside a pixel, makes the
  unpacking of \<open>b, g, r\<close> raise.
\<close>

theorem truncated_pixels_counterexample:
  "read_bmp truncated_pixel_bmp = Inl ValueError \<and>
   take 2 truncated_pixel_bmp = ascii ''BM'' \<and>
   bmp_bit_count truncated_pixel_bmp = 24 \<and>
   54 \<le> length truncated_pixel_bmp"
proof -
  have f: "take 2 truncated_pixel_bmp = ascii ''BM''" "length truncated_pixel_bmp = 55"
    "bmp_bit_count truncated_pixel_bmp = 24" "bmp_width truncated_pixel_bmp = 1"
    "bmp_height truncated_pixel_bmp = 1" "bmp_offset truncated_pixel_bmp = 54"
    by (simp_all add: truncated_pixel_bmp_def ascii_BM bmp_bit_count_def bmp_width_def
        bmp_height_def bmp_offset_def slice_def)
  have "bmp_row_data truncated_pixel_bmp 0 = [255]"
    by (simp add: bmp_row_data_def f round_up_4_3 Let_def)
       (simp add: truncated_pixel_bmp_def slice_def)
  then have "\<not> bmp_rows_whole truncated_pixel_bmp"
    by (simp add: bmp_rows_whole_def f)
  moreover have "\<not> sys_maxsize < bmp_read_size truncated_pixel_bmp"
    by (simp add: bmp_read_size_def f round_up_4_3 sys_maxsize_def)
  ultimately show ?thesis
    by (simp add: read_bmp_eq f)
qed

lemma bmp_header_packed:
  assumes "fs < 2 ^ 32" "box < 2 ^ 32" "img < 2 ^ 32"
  shows "struct_pack [S 2 (ascii ''BM''), I (int fs), H 0, H 0, I 54, I 40, I (int box), I (int box),
            H 1, H 24, I 0, I (int img), I 2835, I 2835, I 0, I 0]
       = Inr (ascii ''BM'' @ le_bytes 4 fs @ le_bytes 2 0 @ le_bytes 2 0 @ le_bytes 4 54 @ le_bytes 4 40
              @ le_bytes 4 box @ le_bytes 4 box @ le_bytes 2 1 @ le_bytes 2 24 @ le_bytes 4 0
              @ le_bytes 4 img @ le_bytes 4 2835 @ le_bytes 4 2835 @ le_bytes 4 0 @ le_bytes 4 0)"
  using assms by (simp add: seq_def ascii_BM)

lemma le_value_4:
  assumes "v < 2 ^ 32"
  shows "le_value [word_of_nat v, word_of_nat (v div 256), word_of_nat (v div 256 div 256),
                   word_of_nat (v div 256 div 256 div 256)] = v"
proof -
  have "v < 256 ^ 4" using assms by simp
  then have "le_value (le_bytes 4 v) = v" by (rule le_value_le_bytes)
  then show ?thesis by (simp only: le_bytes_4)
qed

lemma written_bmp_fields:
  fixes dat :: bytes and fs img box :: nat
  assumes "box < 2 ^ 32"
  defines "f \<equiv> (ascii ''BM'' @ le_bytes 4 fs @ le_bytes 2 0 @ le_bytes 2 0 @ le_bytes 4 54 @ le_bytes 4 40
              @ le_bytes 4 box @ le_bytes 4 box @ le_bytes 2 1 @ le_bytes 2 24 @ le_bytes 4 0
              @ le_bytes 4 img @ le_bytes 4 2835 @ le_bytes 4 2835 @ le_bytes 4 0 @ le_bytes 4 0) @ dat"
  shows "take 2 f = ascii ''BM''" "length f = 54 + length dat" "drop 54 f = dat"
    "bmp_bit_count f = 24" "bmp_width f = box" "bmp_height f = box" "bmp_offset f = 54"
proof -
  note v = le_value_4 [OF assms(1)]
  show "take 2 f = ascii ''BM''" by (simp add: f_def ascii_BM)
  show "length f = 54 + length dat" by (simp add: f_def ascii_BM length_le_bytes)
  show "drop 54 f = dat" by (simp add: f_def ascii_BM le_bytes_4 le_bytes_2)
  show "bmp_bit_count f = 24" by (simp add: f_def ascii_BM le_bytes_4 le_bytes_2 bmp_bit_count_def slice_def)
  show "bmp_width f = box" using v by (simp only: f_def ascii_BM le_bytes_4 le_bytes_2 bmp_width_def slice_def) simp
  show "bmp_height f = box" using v by (simp only: f_def ascii_BM le_bytes_4 le_bytes_2 bmp_height_def slice_def) simp
  show "bmp_offset f = 54" by (simp add: f_def ascii_BM le_bytes_4 le_bytes_2 bmp_offset_def slice_def)
qed

lemma box_le_image:
  fixes box p :: nat
  shows "box \<le> (box * 3 + p) * box"
proof (cases "box = 0")
  case True
  then show ?thesis by simp
next
  case False
  then have "1 \<le> box * 3 + p" by simp
  then have "1 * box \<le> (box * 3 + p) * box" by (rule mult_le_mono1)
  then show ?thesis by simp
qed

lemma save_then_read:
  assumes len: "length x = box * box * 3"
    and fit: "54 + (box * 3 + (4 - (box * 3) mod 4) mod 4) * box < 2 ^ 32"
  shows "\<exists>file. save_frame_as_bmp box x = Inr file \<and> read_bmp file = Inr (swap_channels x)"
proof -
  define w3 where "w3 = box * 3"
  define rp where "rp = round_up_4 w3"
  define padding :: bytes where "padding = replicate (rp - w3) 0"
  define row_of where "row_of = (\<lambda>row. slice x (row * w3) (row * w3 + w3))"
  define g where "g = (\<lambda>row. row_of row @ padding)"
  define dat where "dat = concat (map g [0 ..< box])"
  define fs where "fs = 54 + (box * 3 + (4 - (box * 3) mod 4) mod 4) * box"
  define img where "img = (box * 3 + (4 - (box * 3) mod 4) mod 4) * box"
  define hdr where "hdr = ascii ''BM'' @ le_bytes 4 fs @ le_bytes 2 0 @ le_bytes 2 0 @ le_bytes 4 54 @ le_bytes 4 40
              @ le_bytes 4 box @ le_bytes 4 box @ le_bytes 2 1 @ le_bytes 2 24 @ le_bytes 4 0
              @ le_bytes 4 img @ le_bytes 4 2835 @ le_bytes 4 2835 @ le_bytes 4 0 @ le_bytes 4 0"
  define bmp where "bmp = hdr @ dat"
  have fs32: "fs < 2 ^ 32" using fit by (simp add: fs_def)
  have img32: "img < 2 ^ 32" using fit by (simp add: img_def)
  have "box \<le> img" unfolding img_def by (rule box_le_image)
  then have box32: "box < 2 ^ 32" using img32 by simp
  have w3rp: "w3 \<le> rp" unfolding rp_def by (rule round_up_4_ge)
  have lenx: "length x = box * w3" using len by (simp add: w3_def mult_ac)

  have packed: "struct_pack [S 2 (ascii ''BM''), I (int fs), H 0, H 0, I 54, I 40, I (int box), I (int box),
            H 1, H 24, I 0, I (int img), I 2835, I 2835, I 0, I 0] = Inr hdr"
    unfolding hdr_def by (rule bmp_header_packed [OF fs32 box32 img32])
  have "save_frame_as_bmp box x
        = seq (struct_pack [S 2 (ascii ''BM''), I (int fs), H 0, H 0, I 54, I 40, I (int box), I (int box),
            H 1, H 24, I 0, I (int img), I 2835, I 2835, I 0, I 0]) (\<lambda>bmp_header. Inr (bmp_header @ dat))"
    by (simp add: save_frame_as_bmp_def Let_def fs_def img_def fold_append_concat dat_def g_def
        row_of_def padding_def rp_def w3_def mult.assoc del: struct_pack.simps)
  then have saved: "save_frame_as_bmp box x = Inr bmp"
    by (simp only: packed seq_def sum.case bmp_def)

  have len_row: "length (row_of row) = w3" if "row < box" for row
  proof -
    have "Suc row * w3 \<le> box * w3" using that by (intro mult_le_mono1) simp
    then have "row * w3 + w3 \<le> length x" by (simp add: lenx)
    then show ?thesis by (simp add: row_of_def slice_def)
  qed
  have len_g: "\<forall>row \<in> set [0 ..< box]. length (g row) = rp"
    using len_row w3rp by (simp add: g_def padding_def)
  have len_dat: "length dat = box * rp"
    unfolding dat_def using length_concat_const [OF len_g] by simp

  have fields: "take 2 bmp = ascii ''BM''" "length bmp = 54 + length dat" "drop 54 bmp = dat"
    "bmp_bit_count bmp = 24" "bmp_width bmp = box" "bmp_height bmp = box" "bmp_offset bmp = 54"
    unfolding bmp_def hdr_def by (rule written_bmp_fields [OF box32])+

  have row_data: "bmp_row_data bmp row = row_of row" if "row < box" for row
  proof -
    have "drop (row * rp) dat = concat (map g (drop row [0 ..< box]))"
      unfolding dat_def using len_g that by (intro drop_blocks) simp_all
    also have "drop row [0 ..< box] = row # [Suc row ..< box]"
      by (simp only: drop_upt add_0 upt_conv_Cons [OF that])
    finally have "take w3 (drop (row * rp) dat) = row_of row"
      using len_row [OF that] by (simp add: g_def)
    then show ?thesis
      by (simp add: bmp_row_data_def Let_def fields rp_def [symmetric] w3_def [symmetric]
          len_dat mult.commute slice_take_drop)
  qed
  have whole: "bmp_rows_whole bmp"
    using row_data len_row by (simp add: bmp_rows_whole_def list_all_iff fields w3_def)
  have "bmp_pixels bmp = concat (map (\<lambda>row. swap_channels (row_of row)) [0 ..< box])"
  proof -
    have m: "map (\<lambda>row. swap_channels (bmp_row_data bmp row)) [0 ..< box]
          = map (\<lambda>row. swap_channels (row_of row)) [0 ..< box]"
      by (rule map_cong) (simp_all add: row_data)
    show ?thesis by (simp only: bmp_pixels_def fields m)
  qed
  also have "\<dots> = concat (map swap_channels (map row_of [0 ..< box]))"
    by (simp add: comp_def)
  also have "\<dots> = swap_channels (concat (map row_of [0 ..< box]))"
    using len_row by (intro swap_channels_concat [symmetric]) (simp add: w3_def)
  also have "concat (map row_of [0 ..< box]) = take (box * w3) x"
    unfolding row_of_def by (rule rows_of_buffer)
  finally have pixels: "bmp_pixels bmp = swap_channels x"
    by (simp add: lenx)
  have "bmp_read_size bmp = img"
    by (simp add: bmp_read_size_def fields img_def round_up_4_pad)
  then have "\<not> sys_maxsize < bmp_read_size bmp"
    using img32 by (simp add: sys_maxsize_def)
  then have "read_bmp bmp = Inr (swap_channels x)"
    by (simp add: read_bmp_eq fields whole pixels)
  with saved show ?thesis by blast
qed

lemma round_up_4_6: "round_up_4 6 = 8"
  by (simp add: round_up_4_eq)

lemma save_red: "save_frame_as_bmp 2 red_2x2 = Inr red_2x2_bmp"
proof -
  have r2: "replicate 2 (0::byte) = [0, 0]" by (simp add: numeral_2_eq_2)
  show ?thesis
    by (simp add: save_frame_as_bmp_def seq_def ascii_BM le_bytes_4 le_bytes_2 round_up_4_6
        upt_0_2 slice_def red_2x2_def red_2x2_bmp_def Let_def r2)
qed

text \<open>
  Claim C1, as stated: reading back the file written for a pixel buffer returns the buffer
  byte for byte. It fails on the 2 by 2 all-red buffer: the writer stores the bytes as
  they are and the reader exchanges the first and third byte of every pixel.
\<close>

theorem red_round_trip_counterexample:
  "save_frame_as_bmp 2 red_2x2 = Inr red_2x2_bmp \<and>
   read_bmp red_2x2_bmp = Inr [255, 0, 0,  255, 0, 0,  255, 0, 0,  255, 0, 0] \<and>
   read_bmp red_2x2_bmp \<noteq> Inr red_2x2"
proof -
  have s: "save_frame_as_bmp 2 red_2x2 = Inr red_2x2_bmp" by (rule save_red)
  have "length red_2x2 = 2 * 2 * 3" by (simp add: red_2x2_def)
  moreover have "54 + (2 * 3 + (4 - (2 * 3) mod 4) mod 4) * 2 < (2::nat) ^ 32" by simp
  ultimately obtain b where "save_frame_as_bmp 2 red_2x2 = Inr b"
    and "read_bmp b = Inr (swap_channels red_2x2)"
    using save_then_read [of red_2x2 2] by blast
  then have "read_bmp red_2x2_bmp = Inr (swap_channels red_2x2)"
    using s by simp
  then show ?thesis using s by (simp add: red_2x2_def)
qed

text \<open>
  Claim C1, amended: for a buffer of \<open>box * box * 3\<close> bytes whose file size fits 32 bits,
  the writer succeeds and reading its file returns the buffer with the first and third
  byte of every pixel exchanged, pixels and rows in the same order; the result is the
  buffer itself exactly when that exchange leaves it unchanged.
\<close>

theorem encode_then_decode_swaps_channels:
  assumes "length x = box * box * 3"
    and "54 + (box * 3 + (4 - (box * 3) mod 4) mod 4) * box < 2 ^ 32"
  shows "\<exists>bmp. save_frame_as_bmp box x = Inr bmp \<and> read_bmp bmp = Inr (swap_channels x)
           \<and> (read_bmp bmp = Inr x \<longleftrightarrow> swap_channels x = x)"
proof -
  obtain b where "save_frame_as_bmp box x = Inr b" "read_bmp b = Inr (swap_channels x)"
    using save_then_read [OF assms] by blast
  then show ?thesis by auto
qed

theorem encode_then_decode_swaps_channels_witness:
  "\<exists>bmp. save_frame_as_bmp 2 [1, 2, 3, 4, 5, 6, 7, 8, 9, 10, 11, 12] = Inr bmp \<and>
         read_bmp bmp = Inr [3, 2, 1, 6, 5, 4, 9, 8, 7, 12, 11, 10]"
  using encode_then_decode_swaps_channels [of "[1, 2, 3, 4, 5, 6, 7, 8, 9, 10, 11, 12]" 2]
  by auto

text \<open>The box of the source fits.\<close>

lemma box_size_fits: "54 + (BOX_SIZE * 3 + (4 - (BOX_SIZE * 3) mod 4) mod 4) * BOX_SIZE < 2 ^ 32"
  by (simp add: BOX_SIZE_def)

lemma save_then_read_box_size:
  assumes "length x = BOX_SIZE * BOX_SIZE * 3"
  shows "\<exists>bmp. save_frame_as_bmp BOX_SIZE x = Inr bmp \<and> read_bmp bmp = Inr (swap_channels x)"
  using assms box_size_fits by (rule save_then_read)

section \<open>Properties of the container writer\<close>

lemma struct_pack_eq:
  "struct_pack fs = (if list_all field_ok fs then Inr (concat (map field_bytes fs)) else Inl StructError)"
proof (induction fs)
  case Nil
  then show ?case by simp
next
  case (Cons f fs)
  show ?case
    by (cases f) (simp_all add: Cons.IH seq_def)
qed

lemma ascii_length: "length (ascii s) = length s"
  by (simp add: ascii_def)

lemma chunk_eq:
  "chunk tag data = (if length data < 2 ^ 32 then Inr (ascii tag @ le_bytes 4 (length data) @ data)
                     else Inl StructError)"
  by (simp add: chunk_def struct_pack_eq seq_def)

lemma microsec_pos: "0 < fr \<Longrightarrow> 0 \<le> microsec_per_frame fr \<and> microsec_per_frame fr < 2 ^ 32"
proof -
  assume p: "0 < fr"
  then have "1000000 div fr \<le> 1000000" by (simp add: zdiv_mono2 [of 1000000 1 fr, simplified])
  moreover have "0 \<le> 1000000 div fr" using p by (simp add: pos_imp_zdiv_nonneg_iff)
  ultimately show ?thesis using p by (simp add: microsec_per_frame_def)
qed

lemma avih_eq:
  "avih n fr = (if 0 \<le> microsec_per_frame fr \<and> microsec_per_frame fr < 2 ^ 32 \<and> 0 \<le> fr \<and> 120000 * fr < 2 ^ 32
                  \<and> n < 2 ^ 32
                then Inr (avih_layout n fr) else Inl StructError)"
  by (simp add: avih_def struct_pack_eq avih_layout_def avi_width_def avi_height_def Let_def)

lemma strh_eq:
  "strh n fr = (if 0 \<le> fr \<and> fr < 2 ^ 32 \<and> n < 2 ^ 32
                then Inr (strh_layout n fr) else Inl StructError)"
  by (simp add: strh_def struct_pack_eq strh_layout_def avi_width_def avi_height_def Let_def ascii_length)

lemma strf_eq: "strf = Inr strf_layout"
  by (simp add: strf_def struct_pack_eq strf_layout_def avi_width_def avi_height_def Let_def)

lemma layout_lengths:
  "length (avih_layout n fr) = 56" "length (strh_layout n fr) = 64" "length strf_layout = 40"
  by (simp_all add: avih_layout_def strh_layout_def strf_layout_def length_le_bytes ascii_length)

lemma hdrl_list_eq:
  assumes "0 < fr"
  shows "hdrl_list n fr = (if 120000 * fr < 2 ^ 32 \<and> n < 2 ^ 32
                   then Inr (hdrl_layout n fr) else Inl StructError)"
proof -
  note m = microsec_pos [OF assms]
  have fr32: "fr < 2 ^ 32" if "120000 * fr < 2 ^ 32" using that assms by simp
  show ?thesis
    using assms m fr32
    by (simp add: hdrl_list_def avih_eq strh_eq strf_eq seq_def chunk_eq layout_lengths
        struct_pack_eq length_le_bytes ascii_length hdrl_layout_def Let_def)
qed

lemma hdrl_layout_length: "length (hdrl_layout n fr) = 208"
  by (simp add: hdrl_layout_def layout_lengths length_le_bytes ascii_length)

lemma length_frame_chunk: "length (frame_chunk frame) = padded_chunk_len frame"
proof -
  have "(8 + length frame) mod 2 = length frame mod 2" by presburger
  then show ?thesis
    by (auto simp: frame_chunk_def pad_to_even_def padded_chunk_len_def length_le_bytes ascii_length)
qed

lemma length_idx_entry: "length (idx_entry off) = 12"
  by (simp add: idx_entry_def length_le_bytes ascii_length)

lemma chunk_offset_0: "chunk_offset frames 0 = 0"
  by (simp add: chunk_offset_def)

lemma chunk_offset_Cons: "chunk_offset (f # fs) (Suc i) = padded_chunk_len f + chunk_offset fs i"
  by (simp add: chunk_offset_def)

lemma all_less_Suc_shift: "(\<forall>i < Suc n. P i) \<longleftrightarrow> P 0 \<and> (\<forall>i < n. P (Suc i))"
proof
  assume a: "\<forall>i < Suc n. P i"
  then show "P 0 \<and> (\<forall>i < n. P (Suc i))" by auto
next
  assume a: "P 0 \<and> (\<forall>i < n. P (Suc i))"
  show "\<forall>i < Suc n. P i"
  proof (intro allI impI)
    fix i assume "i < Suc n"
    then show "P i" using a by (cases i) auto
  qed
qed

lemma map_upt_Suc_shift: "map g [0 ..< Suc n] = g 0 # map (\<lambda>i. g (Suc i)) [0 ..< n]"
  by (induction n) simp_all

lemma movi_loop_eq:
  "movi_loop frames (m, es, off) =
     (if (\<forall>f \<in> set frames. length f < 2 ^ 32) \<and>
         (\<forall>i < length frames. off + chunk_offset frames i < 2 ^ 32)
      then Inr (m @ concat (map frame_chunk frames),
                es @ map (\<lambda>i. idx_entry (off + chunk_offset frames i)) [0 ..< length frames],
                off + chunk_offset frames (length frames))
      else Inl StructError)"
proof (induction frames arbitrary: m es off)
  case Nil
  then show ?case by (simp add: chunk_offset_0)
next
  case (Cons f fs)
  have step: "movi_loop (f # fs) (m, es, off) =
      (if length f < 2 ^ 32 \<and> off < 2 ^ 32
       then movi_loop fs (m @ frame_chunk f, es @ [idx_entry off], off + padded_chunk_len f)
       else Inl StructError)"
    by (simp add: struct_pack_eq seq_def Let_def frame_chunk_def [symmetric] idx_entry_def
        length_frame_chunk ascii_length)
  show ?case
    unfolding step Cons.IH
    by (simp only: all_less_Suc_shift map_upt_Suc_shift chunk_offset_0 chunk_offset_Cons
          length_Cons list.set ball_simps)
       (auto simp: add.assoc)
qed

lemma fwrite_at_end: "fwrite (c, length c) b = (c @ b, length (c @ b))"
  by (simp add: fwrite_def)

lemma fwrite_patch:
  assumes "length a = 4" "length ph = 4" "length n = 4"
  shows "fst (fwrite (fseek (a @ ph @ rest, p) 4) n) = a @ n @ rest"
  using assms by (simp add: fwrite_def fseek_def)

lemma write_avi:
  assumes "length ph = 4"
  shows "fwrite (fwrite (fwrite (fwrite (fwrite (fwrite ([], 0) (ascii ''RIFF'')) ph) (ascii ''AVI '')) h) mc) ic
         = (ascii ''RIFF'' @ ph @ ascii ''AVI '' @ h @ mc @ ic,
            12 + length h + length mc + length ic)"
proof -
  have 0: "fwrite ([], 0) (ascii ''RIFF'') = (ascii ''RIFF'', length (ascii ''RIFF''))"
    using fwrite_at_end [of "[]"] by simp
  show ?thesis
    unfolding 0
    by (simp only: fwrite_at_end append_assoc) (simp add: ascii_length assms)
qed

lemma length_chunks: "length (concat (map frame_chunk frames)) = movi_size frames"
  by (induction frames) (simp_all add: movi_size_def chunk_offset_def length_frame_chunk)

lemma length_entries:
  "length (concat (map (\<lambda>i. idx_entry (g i)) is)) = 12 * length is"
  by (induction "is") (simp_all add: length_idx_entry)

lemma hdrl_list_neg: "fr < 0 \<Longrightarrow> hdrl_list n fr = Inl StructError"
  by (simp add: hdrl_list_def avih_eq seq_def)

lemma chunk_offset_le: "chunk_offset frames i \<le> movi_size frames"
proof -
  have "sum_list (map padded_chunk_len (take i frames @ drop i frames))
        = chunk_offset frames i + sum_list (map padded_chunk_len (drop i frames))"
    unfolding chunk_offset_def by (simp only: map_append sum_list_append)
  then show ?thesis by (simp add: movi_size_def chunk_offset_def)
qed

lemma frame_le_movi: "f \<in> set frames \<Longrightarrow> length f \<le> movi_size frames"
proof -
  assume "f \<in> set frames"
  then have "padded_chunk_len f \<in> set (map padded_chunk_len frames)" by simp
  then have "padded_chunk_len f \<le> sum_list (map padded_chunk_len frames)"
    by (intro member_le_sum_list) simp_all
  then show ?thesis by (simp add: movi_size_def chunk_offset_def padded_chunk_len_def)
qed

lemma fits_parts:
  assumes "riff_size frames < 2 ^ 32"
  shows "length frames < 2 ^ 32" "12 * length frames < 2 ^ 32" "4 + movi_size frames < 2 ^ 32"
    "\<forall>f \<in> set frames. length f < 2 ^ 32" "\<forall>i < length frames. chunk_offset frames i < 2 ^ 32"
proof -
  have m: "movi_size frames < 2 ^ 32 - 4" and n: "12 * length frames < 2 ^ 32"
    using assms by (simp_all add: riff_size_def)
  show "length frames < 2 ^ 32" using n by simp
  show "12 * length frames < 2 ^ 32" by (rule n)
  show "4 + movi_size frames < 2 ^ 32" using m by simp
  show "\<forall>f \<in> set frames. length f < 2 ^ 32"
    using frame_le_movi [of _ frames] m by fastforce
  show "\<forall>i < length frames. chunk_offset frames i < 2 ^ 32"
    using chunk_offset_le [of frames] m by (meson le_less_trans less_imp_diff_less order_less_trans less_diff_conv add_lessD1 le_less)
qed

lemma ascii_4: "length (ascii [a, b, c, d]) = 4"
  by (simp add: ascii_def)

lemma seq_Inr: "seq (Inr v) f = f v"
  by (simp add: seq_def)

lemma finish_avi:
  fixes h mc ic ph :: bytes
  defines "W \<equiv> fwrite (fwrite (fwrite (fwrite (fwrite (fwrite ([], 0) (ascii ''RIFF'')) ph) (ascii ''AVI '')) h) mc) ic"
  assumes "length ph = 4" and "riff = 4 + length h + length mc + length ic" and "riff < 2 ^ 32"
  shows "seq (struct_pack [I (int (ftell W) - 8)]) (\<lambda>n. Inr (fst (fwrite (fseek W 4) n)))
         = Inr (ascii ''RIFF'' @ le_bytes 4 riff @ ascii ''AVI '' @ h @ mc @ ic)"
proof -
  have W: "W = (ascii ''RIFF'' @ ph @ ascii ''AVI '' @ h @ mc @ ic, 12 + length h + length mc + length ic)"
    unfolding W_def by (rule write_avi [OF assms(2)])
  have "int (ftell W) - 8 = int riff"
    by (simp add: W ftell_def assms(3))
  then have p: "struct_pack [I (int (ftell W) - 8)] = Inr (le_bytes 4 riff)"
    using assms(4) by (simp add: struct_pack_eq)
  have "fst (fwrite (fseek W 4) (le_bytes 4 riff)) = ascii ''RIFF'' @ le_bytes 4 riff @ ascii ''AVI '' @ h @ mc @ ic"
    unfolding W by (rule fwrite_patch) (simp_all add: ascii_4 assms(2) length_le_bytes)
  then show ?thesis
    by (simp only: p seq_Inr)
qed

lemma create_avi_body_fits:
  assumes "frames \<noteq> []" "avi_fits frames fr"
  shows "create_avi_body frames fr = Inr (avi_layout frames fr)"
proof -
  have fr: "0 < fr" "120000 * fr < 2 ^ 32" and riff: "riff_size frames < 2 ^ 32"
    using assms(2) by (simp_all add: avi_fits_def)
  note parts = fits_parts [OF riff]
  define h where "h = hdrl_layout (length frames) fr"
  define mc where "mc = ascii ''LIST'' @ le_bytes 4 (4 + movi_size frames) @ ascii ''movi'' @ concat (map frame_chunk frames)"
  define ic where "ic = ascii ''idx1'' @ le_bytes 4 (12 * length frames) @
             concat (map (\<lambda>i. idx_entry (chunk_offset frames i)) [0 ..< length frames])"
  have h: "hdrl_list (length frames) fr = Inr h"
    using hdrl_list_eq [OF fr(1), of "length frames"] fr(2) parts(1) by (simp add: h_def)
  have m: "movi_loop frames (ascii ''movi'', [], 0) =
      Inr (ascii ''movi'' @ concat (map frame_chunk frames),
           map (\<lambda>i. idx_entry (chunk_offset frames i)) [0 ..< length frames],
           movi_size frames)"
    using parts(4,5) by (simp add: movi_loop_eq movi_size_def)
  have mc: "chunk ''LIST'' (ascii ''movi'' @ concat (map frame_chunk frames)) = Inr mc"
    using parts(3) by (simp add: chunk_eq length_chunks ascii_4 mc_def)
  have idx1: "fold (\<lambda>entry idx1. idx1 @ entry) es [] = concat es" for es :: "bytes list"
    using fold_append_concat [of "\<lambda>e. e" es "[]"] by simp
  have ic: "chunk ''idx1'' (concat (map (\<lambda>i. idx_entry (chunk_offset frames i)) [0 ..< length frames]))
      = Inr ic"
    using parts(2) by (simp add: chunk_eq length_entries ic_def)
  have ph: "struct_pack [I 0] = Inr (le_bytes 4 0)"
    by (simp add: struct_pack_eq)
  have size: "riff_size frames = 4 + length h + length mc + length ic"
    by (simp add: h_def mc_def ic_def hdrl_layout_length length_chunks length_entries
        length_le_bytes ascii_4 riff_size_def)
  have "create_avi_body frames fr =
      seq (struct_pack [I (int (ftell (fwrite (fwrite (fwrite (fwrite (fwrite (fwrite ([], 0) (ascii ''RIFF'')) (le_bytes 4 0)) (ascii ''AVI '')) h) mc) ic)) - 8)])
        (\<lambda>n. Inr (fst (fwrite (fseek (fwrite (fwrite (fwrite (fwrite (fwrite (fwrite ([], 0) (ascii ''RIFF'')) (le_bytes 4 0)) (ascii ''AVI '')) h) mc) ic) 4) n)))"
    using assms(1) fr(1)
    by (simp add: create_avi_body_def Let_def h m mc ic idx1 ph seq_Inr del: struct_pack.simps)
  also have "\<dots> = Inr (ascii ''RIFF'' @ le_bytes 4 (riff_size frames) @ ascii ''AVI '' @ h @ mc @ ic)"
    by (rule finish_avi [OF _ size riff]) (simp add: length_le_bytes)
  finally show ?thesis
    by (simp add: avi_layout_def h_def mc_def ic_def)
qed

lemma seq_Inl: "seq (Inl e) f = Inl e"
  by (simp add: seq_def)

lemma finish_avi_fail:
  fixes h mc ic ph :: bytes
  defines "W \<equiv> fwrite (fwrite (fwrite (fwrite (fwrite (fwrite ([], 0) (ascii ''RIFF'')) ph) (ascii ''AVI '')) h) mc) ic"
  assumes "length ph = 4" and "riff = 4 + length h + length mc + length ic" and "\<not> riff < 2 ^ 32"
  shows "seq (struct_pack [I (int (ftell W) - 8)]) (\<lambda>n. Inr (fst (fwrite (fseek W 4) n)))
         = Inl StructError"
proof -
  have W: "W = (ascii ''RIFF'' @ ph @ ascii ''AVI '' @ h @ mc @ ic, 12 + length h + length mc + length ic)"
    unfolding W_def by (rule write_avi [OF assms(2)])
  have "int (ftell W) - 8 = int riff"
    by (simp add: W ftell_def assms(3))
  then have p: "struct_pack [I (int (ftell W) - 8)] = Inl StructError"
    using assms(4) by (simp add: struct_pack_eq)
  show ?thesis
    by (simp only: p seq_Inl)
qed

lemma create_avi_body_no_fit:
  assumes "frames \<noteq> []" "fr \<noteq> 0" "\<not> avi_fits frames fr"
  shows "create_avi_body frames fr = Inl StructError"
proof -
  have "fr < 0 \<or> (0 < fr \<and> \<not> 120000 * fr < 2 ^ 32)
      \<or> (0 < fr \<and> 120000 * fr < 2 ^ 32 \<and> \<not> riff_size frames < 2 ^ 32)"
    using assms(2,3) by (auto simp: avi_fits_def)
  then consider (neg) "fr < 0" | (rate) "0 < fr" "\<not> 120000 * fr < 2 ^ 32"
    | (size) "0 < fr" "120000 * fr < 2 ^ 32" "\<not> riff_size frames < 2 ^ 32"
    by blast
  then show ?thesis
  proof cases
    case neg
    then show ?thesis
      using assms(1) by (simp add: create_avi_body_def Let_def hdrl_list_neg seq_Inl)
  next
    case rate
    then show ?thesis
      using assms(1) by (simp add: create_avi_body_def Let_def hdrl_list_eq seq_Inl)
  next
    case size
    define h where "h = hdrl_layout (length frames) fr"
    define mc where "mc = ascii ''LIST'' @ le_bytes 4 (4 + movi_size frames) @ ascii ''movi'' @ concat (map frame_chunk frames)"
    define ic where "ic = ascii ''idx1'' @ le_bytes 4 (12 * length frames) @
             concat (map (\<lambda>i. idx_entry (chunk_offset frames i)) [0 ..< length frames])"
    have idx1: "fold (\<lambda>entry idx1. idx1 @ entry) es [] = concat es" for es :: "bytes list"
      using fold_append_concat [of "\<lambda>e. e" es "[]"] by simp
    have ph: "struct_pack [I 0] = Inr (le_bytes 4 0)"
      by (simp add: struct_pack_eq)
    have rsize: "riff_size frames = 4 + length h + length mc + length ic"
      by (simp add: h_def mc_def ic_def hdrl_layout_length length_chunks length_entries
          length_le_bytes ascii_4 riff_size_def)
    show ?thesis
    proof (cases "length frames < 2 ^ 32")
      case False
      then have "hdrl_list (length frames) fr = Inl StructError"
        using hdrl_list_eq [OF size(1), of "length frames"] by simp
      then show ?thesis
        using assms(1,2) by (simp add: create_avi_body_def Let_def seq_Inl)
    next
      case n: True
      have h: "hdrl_list (length frames) fr = Inr h"
        using hdrl_list_eq [OF size(1), of "length frames"] size(2) n by (simp add: h_def)
      show ?thesis
      proof (cases "(\<forall>f \<in> set frames. length f < 2 ^ 32) \<and>
                    (\<forall>i < length frames. chunk_offset frames i < 2 ^ 32)")
        case False
        then have "movi_loop frames (ascii ''movi'', [], 0) = Inl StructError"
          by (simp add: movi_loop_eq)
        then show ?thesis
          using assms(1,2) by (simp add: create_avi_body_def Let_def h seq_Inr seq_Inl)
      next
        case True
        then have m: "movi_loop frames (ascii ''movi'', [], 0) =
            Inr (ascii ''movi'' @ concat (map frame_chunk frames),
                 map (\<lambda>i. idx_entry (chunk_offset frames i)) [0 ..< length frames],
                 movi_size frames)"
          by (simp add: movi_loop_eq movi_size_def)
        show ?thesis
        proof (cases "4 + movi_size frames < 2 ^ 32")
          case False
          then have "chunk ''LIST'' (ascii ''movi'' @ concat (map frame_chunk frames)) = Inl StructError"
            by (simp add: chunk_eq length_chunks ascii_4)
          then show ?thesis
            using assms(1,2) by (simp add: create_avi_body_def Let_def h m seq_Inr seq_Inl)
        next
          case True
          then have mc: "chunk ''LIST'' (ascii ''movi'' @ concat (map frame_chunk frames)) = Inr mc"
            by (simp add: chunk_eq length_chunks ascii_4 mc_def)
          show ?thesis
          proof (cases "12 * length frames < 2 ^ 32")
            case False
            then have "chunk ''idx1'' (concat (map (\<lambda>i. idx_entry (chunk_offset frames i)) [0 ..< length frames]))
                = Inl StructError"
              by (simp add: chunk_eq length_entries)
            then show ?thesis
              using assms(1,2) by (simp add: create_avi_body_def Let_def h m mc idx1 seq_Inr seq_Inl)
          next
            case True
            then have ic: "chunk ''idx1'' (concat (map (\<lambda>i. idx_entry (chunk_offset frames i)) [0 ..< length frames]))
                = Inr ic"
              by (simp add: chunk_eq length_entries ic_def)
            have "create_avi_body frames fr =
              seq (struct_pack [I (int (ftell (fwrite (fwrite (fwrite (fwrite (fwrite (fwrite ([], 0) (ascii ''RIFF'')) (le_bytes 4 0)) (ascii ''AVI '')) h) mc) ic)) - 8)])
                (\<lambda>n. Inr (fst (fwrite (fseek (fwrite (fwrite (fwrite (fwrite (fwrite (fwrite ([], 0) (ascii ''RIFF'')) (le_bytes 4 0)) (ascii ''AVI '')) h) mc) ic) 4) n)))"
              using assms(1,2)
              by (simp add: create_avi_body_def Let_def h m mc ic idx1 ph seq_Inr del: struct_pack.simps)
            also have "\<dots> = Inl StructError"
              by (rule finish_avi_fail [OF _ rsize size(3)]) (simp add: length_le_bytes)
            finally show ?thesis .
          qed
        qed
      qed
    qed
  qed
qed

lemma create_avi_body_eq:
  "create_avi_body frames fr =
     (if frames = [] then Inl ValueError
      else if fr = 0 then Inl ZeroDivisionError
      else if avi_fits frames fr then Inr (avi_layout frames fr)
      else Inl StructError)"
proof -
  have "frames = [] \<Longrightarrow> create_avi_body frames fr = Inl ValueError"
    by (simp add: create_avi_body_def)
  moreover have "frames \<noteq> [] \<Longrightarrow> fr = 0 \<Longrightarrow> create_avi_body frames fr = Inl ZeroDivisionError"
    by (simp add: create_avi_body_def)
  moreover have "avi_fits frames fr \<Longrightarrow> fr \<noteq> 0"
    by (auto simp: avi_fits_def)
  ultimately show ?thesis
    using create_avi_body_fits [of frames fr] create_avi_body_no_fit [of frames fr]
    by auto
qed

lemma length_avi_layout: "length (avi_layout frames fr) = 8 + riff_size frames"
  by (simp add: avi_layout_def hdrl_layout_length length_chunks length_entries length_le_bytes
      ascii_4 riff_size_def)

lemma created_layout:
  assumes "create_avi_body frames fr = Inr out"
  shows "frames \<noteq> []" "avi_fits frames fr" "out = avi_layout frames fr"
  using assms by (auto simp: create_avi_body_eq split: if_splits)

lemma chunk_offset_Suc:
  assumes "i < length frames"
  shows "chunk_offset frames (Suc i) = chunk_offset frames i + padded_chunk_len (frames ! i)"
  using assms by (simp add: chunk_offset_def take_Suc_conv_app_nth)

lemma chunk_offset_mono:
  assumes "i < j" "j \<le> length frames"
  shows "chunk_offset frames i < chunk_offset frames j"
  using assms
proof (induction j)
  case 0
  then show ?case by simp
next
  case (Suc j)
  have s: "chunk_offset frames (Suc j) = chunk_offset frames j + padded_chunk_len (frames ! j)"
    using Suc.prems by (intro chunk_offset_Suc) simp
  have p: "0 < padded_chunk_len (frames ! j)" by (simp add: padded_chunk_len_def)
  show ?case
  proof (cases "i = j")
    case True
    then show ?thesis using s p by simp
  next
    case False
    then have "chunk_offset frames i < chunk_offset frames j"
      using Suc by simp
    then show ?thesis using s by simp
  qed
qed

lemma drop_concat_prefix:
  assumes "i \<le> length bs"
  shows "drop (sum_list (map length (take i bs))) (concat bs) = concat (drop i bs)"
  using assms
proof (induction bs arbitrary: i)
  case Nil
  then show ?case by simp
next
  case (Cons b bs)
  then show ?case by (cases i) simp_all
qed

lemma frame_chunk_prefix:
  "take (8 + length f) (frame_chunk f @ rest) = ascii ''00dc'' @ le_bytes 4 (length f) @ f"
  by (simp add: frame_chunk_def pad_to_even_def length_le_bytes ascii_4)

lemma chunk_placed:
  assumes "i < length frames"
  shows "take (8 + length (frames ! i)) (drop (232 + chunk_offset frames i) (avi_layout frames fr))
         = ascii ''00dc'' @ le_bytes 4 (length (frames ! i)) @ frames ! i"
proof -
  define pre where "pre = ascii ''RIFF'' @ le_bytes 4 (riff_size frames) @ ascii ''AVI '' @
     hdrl_layout (length frames) fr @
     ascii ''LIST'' @ le_bytes 4 (4 + movi_size frames) @ ascii ''movi''"
  define post where "post = ascii ''idx1'' @ le_bytes 4 (12 * length frames) @
     concat (map (\<lambda>i. idx_entry (chunk_offset frames i)) [0 ..< length frames])"
  have lp: "length pre = 232"
    by (simp add: pre_def hdrl_layout_length length_le_bytes ascii_4)
  have a: "avi_layout frames fr = pre @ concat (map frame_chunk frames) @ post"
    by (simp add: avi_layout_def pre_def post_def)
  have off: "chunk_offset frames i = sum_list (map length (take i (map frame_chunk frames)))"
    by (simp add: chunk_offset_def take_map comp_def length_frame_chunk)
  have i: "i \<le> length (map frame_chunk frames)" using assms by simp
  have "chunk_offset frames i \<le> length (concat (map frame_chunk frames))"
    using chunk_offset_le [of frames i] by (simp add: length_chunks)
  then have "drop (232 + chunk_offset frames i) (avi_layout frames fr)
        = drop (chunk_offset frames i) (concat (map frame_chunk frames)) @ post"
    by (simp add: a lp)
  also have "drop (chunk_offset frames i) (concat (map frame_chunk frames))
        = concat (drop i (map frame_chunk frames))"
    unfolding off by (rule drop_concat_prefix [OF i])
  also have "drop i (map frame_chunk frames) = frame_chunk (frames ! i) # drop (Suc i) (map frame_chunk frames)"
    using assms by (simp add: Cons_nth_drop_Suc [symmetric])
  finally show ?thesis
    by (simp only: concat.simps append_assoc frame_chunk_prefix)
qed

lemma two_sizes_fit: "avi_fits two_sizes 30" "riff_size two_sizes = 282" "two_sizes \<noteq> []"
  by (simp_all add: avi_fits_def riff_size_def movi_size_def chunk_offset_def padded_chunk_len_def
      two_sizes_def)

text \<open>
  Claim C4, as stated: a sequence with two frames of different sizes is rejected with a
  dimension-mismatch error. It fails: for a frame of 3 bytes followed by one of 6 bytes
  the muxer returns a container of 290 bytes.
\<close>

theorem mixed_sizes_muxed_counterexample:
  "create_avi_body two_sizes 30 = Inr (avi_layout two_sizes 30) \<and>
   length (two_sizes ! 0) = 3 \<and> length (two_sizes ! 1) = 6 \<and>
   length (avi_layout two_sizes 30) = 290"
  by (simp add: create_avi_body_eq two_sizes_fit length_avi_layout) (simp add: two_sizes_def)

text \<open>
  Claim C4, amended: the muxer compares no frame sizes. It raises \<open>ValueError\<close> exactly
  for the empty sequence and \<open>ZeroDivisionError\<close> exactly for a frame rate of zero on a
  sequence that is not empty; every sequence that is not empty, with a positive frame rate
  whose byte rate \<open>200 * 200 * 3 * frame_rate\<close> fits 32 bits and a RIFF size that fits
  32 bits, is muxed into a container, whatever the sizes of its frames.
\<close>

theorem mux_checks_no_sizes:
  "(create_avi_body frames fr = Inl ValueError \<longleftrightarrow> frames = []) \<and>
   (create_avi_body frames fr = Inl ZeroDivisionError \<longleftrightarrow> frames \<noteq> [] \<and> fr = 0) \<and>
   (frames \<noteq> [] \<and> 0 < fr \<and> 200 * 200 * 3 * fr < 2 ^ 32 \<and> riff_size frames < 2 ^ 32
      \<longrightarrow> create_avi_body frames fr = Inr (avi_layout frames fr))"
  by (auto simp: create_avi_body_eq avi_fits_def)

theorem mux_checks_no_sizes_witness:
  "create_avi_body [[1, 2, 3], [4, 5, 6, 7]] 25 = Inr (avi_layout [[1, 2, 3], [4, 5, 6, 7]] 25) \<and>
   create_avi_body [] 25 = Inl ValueError"
proof -
  have "riff_size [[1, 2, 3], [4, 5, 6, 7]] < 2 ^ 32"
    by (simp add: riff_size_def movi_size_def chunk_offset_def padded_chunk_len_def)
  then show ?thesis
    using mux_checks_no_sizes [of "[[1, 2, 3], [4, 5, 6, 7]]" 25] mux_checks_no_sizes [of "[]" 25]
    by simp
qed

lemma riff_field_created:
  assumes "create_avi_body frames fr = Inr out"
  shows "8 \<le> length out \<and> slice out 4 8 = le_bytes 4 (length out - 8) \<and>
         le_value (slice out 4 8) = length out - 8"
proof -
  note c = created_layout [OF assms]
  have r: "riff_size frames < 256 ^ 4" using c(2) by (simp add: avi_fits_def)
  have l: "length out = 8 + riff_size frames" by (simp add: c(3) length_avi_layout)
  have s: "slice out 4 8 = le_bytes 4 (riff_size frames)"
    by (simp add: c(3) avi_layout_def slice_def ascii_4 length_le_bytes)
  show ?thesis
    using le_value_le_bytes [OF r] by (simp add: l s)
qed

lemma idx1_created:
  assumes "create_avi_body frames fr = Inr out"
  shows "(\<exists>pre. out = pre @ ascii ''idx1'' @ le_bytes 4 (12 * length frames) @
            concat (map (\<lambda>i. ascii ''00dc'' @ le_bytes 4 16 @ le_bytes 4 (chunk_offset frames i))
                        [0 ..< length frames])
          \<and> length pre = 232 + chunk_offset frames (length frames)) \<and>
         chunk_offset frames 0 = 0 \<and>
         (\<forall>i j. i < j \<and> j < length frames \<longrightarrow> chunk_offset frames i < chunk_offset frames j) \<and>
         (\<forall>i < length frames.
            chunk_offset frames i < 2 ^ 32 \<and>
            le_value (le_bytes 4 (chunk_offset frames i)) = chunk_offset frames i \<and>
            take (8 + length (frames ! i)) (drop (232 + chunk_offset frames i) out)
              = ascii ''00dc'' @ le_bytes 4 (length (frames ! i)) @ frames ! i)"
proof (intro conjI allI impI)
  note c = created_layout [OF assms]
  have riff: "riff_size frames < 2 ^ 32" using c(2) by (simp add: avi_fits_def)
  note parts = fits_parts [OF riff]
  define pre where "pre = ascii ''RIFF'' @ le_bytes 4 (riff_size frames) @ ascii ''AVI '' @
     hdrl_layout (length frames) fr @
     ascii ''LIST'' @ le_bytes 4 (4 + movi_size frames) @ ascii ''movi'' @
     concat (map frame_chunk frames)"
  have "out = pre @ ascii ''idx1'' @ le_bytes 4 (12 * length frames) @
            concat (map (\<lambda>i. ascii ''00dc'' @ le_bytes 4 16 @ le_bytes 4 (chunk_offset frames i))
                        [0 ..< length frames])"
    by (simp add: c(3) avi_layout_def pre_def idx_entry_def)
  moreover have "length pre = 232 + chunk_offset frames (length frames)"
    by (simp add: pre_def hdrl_layout_length length_le_bytes ascii_4 length_chunks movi_size_def)
  ultimately show "\<exists>pre. out = pre @ ascii ''idx1'' @ le_bytes 4 (12 * length frames) @
            concat (map (\<lambda>i. ascii ''00dc'' @ le_bytes 4 16 @ le_bytes 4 (chunk_offset frames i))
                        [0 ..< length frames])
          \<and> length pre = 232 + chunk_offset frames (length frames)"
    by blast
  show "chunk_offset frames 0 = 0" by (rule chunk_offset_0)
  show "chunk_offset frames i < chunk_offset frames j" if "i < j \<and> j < length frames" for i j
    using that by (intro chunk_offset_mono) simp_all
  show b: "chunk_offset frames i < 2 ^ 32" if "i < length frames" for i
    using parts(5) that by simp
  show "le_value (le_bytes 4 (chunk_offset frames i)) = chunk_offset frames i" if "i < length frames" for i
    using b [OF that] by (intro le_value_le_bytes) simp
  show "take (8 + length (frames ! i)) (drop (232 + chunk_offset frames i) out)
              = ascii ''00dc'' @ le_bytes 4 (length (frames ! i)) @ frames ! i" if "i < length frames" for i
    unfolding c(3) using that by (rule chunk_placed)
qed

lemma hdrl_fields:
  "slice (hdrl_layout n fr) 52 56 = le_bytes 4 200"
  "slice (hdrl_layout n fr) 56 60 = le_bytes 4 200"
  "slice (hdrl_layout n fr) 24 28 = le_bytes 4 (nat (200 * 200 * 3 * fr))"
  "slice (hdrl_layout n fr) 48 52 = le_bytes 4 (200 * 200 * 3)"
  "slice (hdrl_layout n fr) 172 176 = le_bytes 4 200"
  "slice (hdrl_layout n fr) 176 180 = le_bytes 4 200"
  "slice (hdrl_layout n fr) 188 192 = le_bytes 4 (200 * 200 * 3)"
  by (simp_all add: hdrl_layout_def avih_layout_def strh_layout_def strf_layout_def
      le_bytes_4 le_bytes_2 ascii_def slice_def)

lemma slice_in_hdrl:
  assumes "b \<le> 208"
  shows "slice (avi_layout frames fr) (12 + a) (12 + b) = slice (hdrl_layout (length frames) fr) a b"
proof -
  define p where "p = ascii ''RIFF'' @ le_bytes 4 (riff_size frames) @ ascii ''AVI ''"
  define q where "q = ascii ''LIST'' @ le_bytes 4 (4 + movi_size frames) @ ascii ''movi'' @
     concat (map frame_chunk frames) @
     ascii ''idx1'' @ le_bytes 4 (12 * length frames) @
     concat (map (\<lambda>i. idx_entry (chunk_offset frames i)) [0 ..< length frames])"
  have lp: "length p = 12" by (simp add: p_def length_le_bytes ascii_4)
  have a: "avi_layout frames fr = p @ hdrl_layout (length frames) fr @ q"
    by (simp add: avi_layout_def p_def q_def)
  show ?thesis
    using assms by (simp add: a slice_def lp hdrl_layout_length)
qed

lemma hdrl_fields_created:
  assumes "create_avi_body frames fr = Inr out"
  shows "slice out 64 68 = le_bytes 4 200 \<and> slice out 68 72 = le_bytes 4 200 \<and>
         slice out 36 40 = le_bytes 4 (nat (200 * 200 * 3 * fr)) \<and>
         slice out 60 64 = le_bytes 4 (200 * 200 * 3) \<and>
         slice out 184 188 = le_bytes 4 200 \<and> slice out 188 192 = le_bytes 4 200 \<and>
         slice out 200 204 = le_bytes 4 (200 * 200 * 3) \<and>
         (\<forall>frames' out'. create_avi_body frames' fr = Inr out' \<and> length frames' = length frames
            \<longrightarrow> slice out' 12 220 = slice out 12 220)"
proof -
  note c = created_layout [OF assms]
  have f: "slice out (12 + a) (12 + b) = slice (hdrl_layout (length frames) fr) a b" if "b \<le> 208" for a b
    unfolding c(3) using that by (rule slice_in_hdrl)
  have "slice out' 12 220 = slice out 12 220"
    if "create_avi_body frames' fr = Inr out' \<and> length frames' = length frames" for frames' out'
  proof -
    have "out' = avi_layout frames' fr" using that created_layout(3) by blast
    then have "slice out' (12 + 0) (12 + 208) = slice (hdrl_layout (length frames) fr) 0 208"
      using that by (simp only: slice_in_hdrl)
    moreover have "slice out (12 + 0) (12 + 208) = slice (hdrl_layout (length frames) fr) 0 208"
      by (rule f) simp
    ultimately show ?thesis by simp
  qed
  then show ?thesis
    using f [of 56 52] f [of 60 56] f [of 28 24] f [of 52 48] f [of 176 172] f [of 180 176] f [of 192 188]
    by (simp add: hdrl_fields)
qed

text \<open>
  Claim C8: when the muxer finishes, the four bytes at offset 4 of the file are the
  little-endian encoding of the length of the file minus 8.
  The muxer does finish on every sequence that is not empty and fits (\<open>avi_fits\<close>).
\<close>

theorem riff_size_field:
  "(frames \<noteq> [] \<and> avi_fits frames fr \<longrightarrow> (\<exists>res. create_avi_body frames fr = Inr res)) \<and>
   (create_avi_body frames fr = Inr out \<longrightarrow>
      8 \<le> length out \<and> slice out 4 8 = le_bytes 4 (length out - 8) \<and>
      le_value (slice out 4 8) = length out - 8)"
  using create_avi_body_fits [of frames fr] riff_field_created [of frames fr out] by blast

theorem riff_size_field_witness:
  "create_avi_body two_sizes 30 = Inr (avi_layout two_sizes 30) \<and>
   length (avi_layout two_sizes 30) = 290 \<and>
   le_value (slice (avi_layout two_sizes 30) 4 8) = 282"
proof -
  have c: "create_avi_body two_sizes 30 = Inr (avi_layout two_sizes 30)"
    by (simp add: create_avi_body_eq two_sizes_fit)
  show ?thesis
    using riff_size_field [of two_sizes 30 "avi_layout two_sizes 30"] c
    by (simp add: length_avi_layout two_sizes_fit le_bytes_4)
qed

text \<open>
  Claim C7: when the muxer finishes, the file ends with the \<open>idx1\<close> chunk, which holds
  one entry of 12 bytes per frame, in the order of the frames: the tag \<open>00dc\<close>, the flag
  16 and the offset. The offset of entry \<open>i\<close> is the sum of the padded chunk lengths of
  the frames before \<open>i\<close> (0 for the first), the offsets increase strictly, each fits its
  field, and the chunk of frame \<open>i\<close> starts at that offset after the \<open>movi\<close> tag (byte
  232 of the file).
  The muxer does finish on every sequence that is not empty and fits (\<open>avi_fits\<close>).
\<close>

theorem idx1_offsets:
  "(frames \<noteq> [] \<and> avi_fits frames fr \<longrightarrow> (\<exists>res. create_avi_body frames fr = Inr res)) \<and>
   (create_avi_body frames fr = Inr out \<longrightarrow>
      (\<exists>pre. out = pre @ ascii ''idx1'' @ le_bytes 4 (12 * length frames) @
            concat (map (\<lambda>i. ascii ''00dc'' @ le_bytes 4 16 @ le_bytes 4 (chunk_offset frames i))
                        [0 ..< length frames])
          \<and> length pre = 232 + chunk_offset frames (length frames)) \<and>
      chunk_offset frames 0 = 0 \<and>
      (\<forall>i j. i < j \<and> j < length frames \<longrightarrow> chunk_offset frames i < chunk_offset frames j) \<and>
      (\<forall>i < length frames.
         chunk_offset frames i < 2 ^ 32 \<and>
         le_value (le_bytes 4 (chunk_offset frames i)) = chunk_offset frames i \<and>
         take (8 + length (frames ! i)) (drop (232 + chunk_offset frames i) out)
           = ascii ''00dc'' @ le_bytes 4 (length (frames ! i)) @ frames ! i))"
proof (rule conjI; rule impI)
  assume "frames \<noteq> [] \<and> avi_fits frames fr"
  then show "\<exists>res. create_avi_body frames fr = Inr res"
    using create_avi_body_fits [of frames fr] by blast
next
  assume "create_avi_body frames fr = Inr out"
  then show "(\<exists>pre. out = pre @ ascii ''idx1'' @ le_bytes 4 (12 * length frames) @
            concat (map (\<lambda>i. ascii ''00dc'' @ le_bytes 4 16 @ le_bytes 4 (chunk_offset frames i))
                        [0 ..< length frames])
          \<and> length pre = 232 + chunk_offset frames (length frames)) \<and>
      chunk_offset frames 0 = 0 \<and>
      (\<forall>i j. i < j \<and> j < length frames \<longrightarrow> chunk_offset frames i < chunk_offset frames j) \<and>
      (\<forall>i < length frames.
         chunk_offset frames i < 2 ^ 32 \<and>
         le_value (le_bytes 4 (chunk_offset frames i)) = chunk_offset frames i \<and>
         take (8 + length (frames ! i)) (drop (232 + chunk_offset frames i) out)
           = ascii ''00dc'' @ le_bytes 4 (length (frames ! i)) @ frames ! i)"
    by (rule idx1_created)
qed

theorem idx1_offsets_witness:
  "create_avi_body two_sizes 30 = Inr (avi_layout two_sizes 30) \<and>
   chunk_offset two_sizes 0 = 0 \<and> chunk_offset two_sizes 1 = 12 \<and>
   chunk_offset two_sizes 0 < chunk_offset two_sizes 1 \<and>
   take 14 (drop 244 (avi_layout two_sizes 30)) = ascii ''00dc'' @ [6, 0, 0, 0] @ [1, 2, 3, 4, 5, 6]"
proof -
  have c: "create_avi_body two_sizes 30 = Inr (avi_layout two_sizes 30)"
    by (simp add: create_avi_body_eq two_sizes_fit)
  have l: "length two_sizes = 2" "two_sizes ! Suc 0 = [1, 2, 3, 4, 5, 6]"
    by (simp_all add: two_sizes_def)
  have o: "chunk_offset two_sizes (Suc 0) = 12"
    by (simp add: chunk_offset_def two_sizes_def padded_chunk_len_def)
  note t = idx1_offsets [of two_sizes 30 "avi_layout two_sizes 30", THEN conjunct2, THEN mp, OF c]
  from t have "0 < (1::nat) \<and> 1 < length two_sizes \<longrightarrow> chunk_offset two_sizes 0 < chunk_offset two_sizes 1"
    by blast
  then have m: "chunk_offset two_sizes 0 < chunk_offset two_sizes 1" by (simp add: l)
  from t have "1 < length two_sizes \<longrightarrow>
      take (8 + length (two_sizes ! 1)) (drop (232 + chunk_offset two_sizes 1) (avi_layout two_sizes 30))
        = ascii ''00dc'' @ le_bytes 4 (length (two_sizes ! 1)) @ two_sizes ! 1"
    by blast
  then have p: "take 14 (drop 244 (avi_layout two_sizes 30)) = ascii ''00dc'' @ [6, 0, 0, 0] @ [1, 2, 3, 4, 5, 6]"
    by (simp add: l o le_bytes_4)
  from t have z: "chunk_offset two_sizes 0 = 0" by blast
  show ?thesis using c z o m p by simp
qed

text \<open>
  Claim C10: when the muxer finishes, the width and height fields of \<open>avih\<close> (bytes 64
  and 68) and of \<open>strf\<close> (bytes 184 and 188) hold 200, the maximal byte rate (byte 36)
  holds \<open>200 * 200 * 3 * frame_rate\<close>, the suggested buffer size (byte 60) and the image
  size (byte 200) hold \<open>200 * 200 * 3\<close>; the whole \<open>hdrl\<close> list (bytes 12 to 220) is the
  same for any other sequence of as many frames at the same rate.
  The muxer does finish on every sequence that is not empty and fits (\<open>avi_fits\<close>).
\<close>

theorem header_geometry_fixed:
  "(frames \<noteq> [] \<and> avi_fits frames fr \<longrightarrow> (\<exists>res. create_avi_body frames fr = Inr res)) \<and>
   (create_avi_body frames fr = Inr out \<longrightarrow>
      slice out 64 68 = le_bytes 4 200 \<and> slice out 68 72 = le_bytes 4 200 \<and>
      slice out 36 40 = le_bytes 4 (nat (200 * 200 * 3 * fr)) \<and>
      slice out 60 64 = le_bytes 4 (200 * 200 * 3) \<and>
      slice out 184 188 = le_bytes 4 200 \<and> slice out 188 192 = le_bytes 4 200 \<and>
      slice out 200 204 = le_bytes 4 (200 * 200 * 3) \<and>
      (\<forall>frames' out'. create_avi_body frames' fr = Inr out' \<and> length frames' = length frames
         \<longrightarrow> slice out' 12 220 = slice out 12 220))"
proof (rule conjI; rule impI)
  assume "frames \<noteq> [] \<and> avi_fits frames fr"
  then show "\<exists>res. create_avi_body frames fr = Inr res"
    using create_avi_body_fits [of frames fr] by blast
next
  assume "create_avi_body frames fr = Inr out"
  then show "slice out 64 68 = le_bytes 4 200 \<and> slice out 68 72 = le_bytes 4 200 \<and>
      slice out 36 40 = le_bytes 4 (nat (200 * 200 * 3 * fr)) \<and>
      slice out 60 64 = le_bytes 4 (200 * 200 * 3) \<and>
      slice out 184 188 = le_bytes 4 200 \<and> slice out 188 192 = le_bytes 4 200 \<and>
      slice out 200 204 = le_bytes 4 (200 * 200 * 3) \<and>
      (\<forall>frames' out'. create_avi_body frames' fr = Inr out' \<and> length frames' = length frames
         \<longrightarrow> slice out' 12 220 = slice out 12 220)"
    by (rule hdrl_fields_created)
qed

theorem header_geometry_fixed_witness:
  "create_avi_body two_sizes 30 = Inr (avi_layout two_sizes 30) \<and>
   slice (avi_layout two_sizes 30) 64 68 = [200, 0, 0, 0] \<and>
   slice (avi_layout two_sizes 30) 68 72 = [200, 0, 0, 0] \<and>
   slice (avi_layout two_sizes 30) 184 188 = [200, 0, 0, 0] \<and>
   slice (avi_layout two_sizes 30) 188 192 = [200, 0, 0, 0] \<and>
   slice (avi_layout two_sizes 30) 60 64 = [192, 212, 1, 0]"
proof -
  have c: "create_avi_body two_sizes 30 = Inr (avi_layout two_sizes 30)"
    by (simp add: create_avi_body_eq two_sizes_fit)
  show ?thesis
    using header_geometry_fixed [of two_sizes 30 "avi_layout two_sizes 30"] c
    by (simp add: le_bytes_4)
qed

end
